theory Spec2Isabelle
  imports Main "HOL-Library.Word"
begin

section \<open>The goroutine pool of ants: data model\<close>

text \<open>
  The embedding follows \<^verbatim>\<open>pool.go\<close>, \<^verbatim>\<open>worker.go\<close> and
  \<^verbatim>\<open>internal/spinlock.go\<close>. Every method of \<^verbatim>\<open>Pool\<close> is a function
  that takes the pool state and returns the new one. The fields \<^verbatim>\<open>capacity\<close>,
  \<^verbatim>\<open>running\<close> and \<^verbatim>\<open>waiting\<close> are \<^verbatim>\<open>int32\<close> in the source: they are
  integers here and every store into them goes through \<open>int32\<close>, the conversion that
  keeps the low 32 bits. Go's \<^verbatim>\<open>int\<close> (the type of the \<^verbatim>\<open>size\<close> arguments) is
  64 bits wide on the usual platforms and is an unbounded integer here.

  A method body is one step: code that runs under \<^verbatim>\<open>p.lock\<close> together with the
  lock-free reads and writes around it; what other goroutines may do in between is not
  part of a step (for \<^verbatim>\<open>revertWorker\<close>, the part under the lock is a function of its
  own, of the pool as it is when the lock is taken). The places where a goroutine really waits are cut out as
  separate steps: a submitter parked in \<^verbatim>\<open>p.cond.Wait()\<close> is resumed by
  \<open>retrieveWorker_wake\<close>, a worker goroutine advances by \<open>worker_recv\<close> and
  \<open>worker_finish\<close>, and a scavenger goroutine by \<open>purge_tick\<close> and \<open>purge_done\<close>.
\<close>

definition int32 :: "int \<Rightarrow> int" where
  "int32 x = (x + 2147483648) mod 4294967296 - 2147483648"

datatype error =
  ErrInvalidPoolExpiry | ErrInvalidPreAllocSize | ErrPoolClosed | ErrPoolOverload | ErrTimeout

text \<open>The two values of \<^verbatim>\<open>Pool.state\<close>; a new pool holds the zero value, \<open>OPENED\<close>.\<close>

datatype pool_state = OPENED | CLOSED

text \<open>
  A task is a \<^verbatim>\<open>func()\<close>: opaque to the pool. It is identified by a number, and the
  flag says whether calling it panics. \<open>None\<close> is Go's \<^verbatim>\<open>nil\<close>.
\<close>

datatype func = Func (fid: nat) (panics: bool)

type_synonym task = "func option"

type_synonym wid = nat

text \<open>
  A \<^verbatim>\<open>goWorker\<close>: the contents of its task channel, oldest first, and its time stamp.
  The channel is a list without a bound: a sender that would have to wait for room is a
  value at the end of the list. (By \<open>consistent\<close> below, a task is only ever sent on an
  empty channel whose worker is waiting for it.)
\<close>

record goWorker =
  task :: "task list"
  recycleTime :: int

datatype logger = defaultLogger | userLogger nat

text \<open>
  Modelled from the spec: the \<^verbatim>\<open>Options\<close> struct (its file is not part of the
  sources at hand), with the fields that \<^verbatim>\<open>pool.go\<close> and \<^verbatim>\<open>worker.go\<close> read.
  \<open>ExpiryDuration\<close> is a \<^verbatim>\<open>time.Duration\<close>, in nanoseconds.
\<close>

record Options =
  ExpiryDuration :: int
  PreAlloc :: bool
  MaxBlockingTasks :: int
  Nonblocking :: bool
  PanicHandler :: "nat option"
  Logger :: "logger option"
  DisablePurge :: bool

text \<open>
  Modelled from the spec: the built-in default of the expiry interval (the constant is
  declared outside the sources at hand); one second.
\<close>

definition DefaultCleanIntervalTime :: int where
  "DefaultCleanIntervalTime = 1000000000"

text \<open>
  Modelled from the spec: the idle-worker queue (section 4.3; \<^verbatim>\<open>workerArray\<close> and its
  two implementations are not part of the sources at hand). The growable strategy hands
  out the worker inserted last, the fixed-capacity one hands them out in insertion order
  and rejects an insert when it is full.
\<close>

datatype arrayType = stackType | loopQueueType

record workerArray =
  kind :: arrayType
  bound :: int
  items :: "wid list"

definition newWorkerArray :: "arrayType \<Rightarrow> int \<Rightarrow> workerArray" where
  "newWorkerArray k n = \<lparr>kind = k, bound = n, items = []\<rparr>"

definition detach :: "workerArray \<Rightarrow> wid option \<times> workerArray" where
  "detach a =
     (case kind a of
        stackType \<Rightarrow>
          (if items a = [] then (None, a)
           else (Some (last (items a)), a\<lparr>items := butlast (items a)\<rparr>))
      | loopQueueType \<Rightarrow>
          (case items a of
             [] \<Rightarrow> (None, a)
           | w # ws \<Rightarrow> (Some w, a\<lparr>items := ws\<rparr>)))"

definition insert_worker :: "workerArray \<Rightarrow> wid \<Rightarrow> workerArray option" where
  "insert_worker a w =
     (if kind a = loopQueueType \<and> bound a \<le> int (length (items a)) then None
      else Some (a\<lparr>items := items a @ [w]\<rparr>))"

text \<open>
  The condition variable \<^verbatim>\<open>p.cond\<close>: the goroutines parked in \<^verbatim>\<open>Wait\<close>, oldest
  first, and those already notified that have not run yet. Each is a call of
  \<^verbatim>\<open>Submit\<close> and is named by the task it carries.
\<close>

record cond =
  parked :: "task list"
  notified :: "task list"

definition Wait :: "cond \<Rightarrow> task \<Rightarrow> cond" where
  "Wait c t = c\<lparr>parked := parked c @ [t]\<rparr>"

definition Signal :: "cond \<Rightarrow> cond" where
  "Signal c =
     (case parked c of
        [] \<Rightarrow> c
      | t # ts \<Rightarrow> c\<lparr>parked := ts, notified := notified c @ [t]\<rparr>)"

definition Broadcast :: "cond \<Rightarrow> cond" where
  "Broadcast c = c\<lparr>parked := [], notified := notified c @ parked c\<rparr>"

text \<open>
  The pool. Beside the fields of the struct it holds what the struct points to: the
  worker objects (\<open>heap\<close>), the worker goroutines that are alive (\<open>live\<close>), the task a
  worker is in the middle of (\<open>executing\<close>), the next unused worker identity, the
  contexts of the scavenger goroutines that are alive and of those cancelled, the number
  of contexts made so far, the log of the task bodies that were run, and the log of the
  panics recovered (each goes to the panic handler or, without one, to the logger).
  \<open>stopHeartbeat\<close> is \<open>None\<close> for \<^verbatim>\<open>nil\<close> and otherwise the context that the cancel
  function cancels.
\<close>

record Pool =
  capacity :: int
  running :: int
  workers :: workerArray
  state :: pool_state
  cond :: cond
  workerCache :: "wid list"
  waiting :: int
  heartbeatDone :: int
  stopHeartbeat :: "nat option"
  options :: Options
  heap :: "wid \<Rightarrow> goWorker"
  live :: "wid list"
  executing :: "wid \<Rightarrow> func option"
  fresh :: wid
  scavengers :: "nat list"
  cancelled :: "nat list"
  contexts :: nat
  executed :: "nat list"
  recovered :: "nat list"

section \<open>Construction and the accessors\<close>

text \<open>
  The pool that \<open>NewPool\<close> builds: the given capacity, options and queue, the zero value
  in the other fields of the struct, no worker yet, and the scavenger goroutine (unless
  the purge is disabled) with its cancel function.
\<close>

definition emptyPool :: "int \<Rightarrow> Options \<Rightarrow> workerArray \<Rightarrow> Pool" where
  "emptyPool c opts a =
     \<lparr>capacity = c, running = 0, workers = a, state = OPENED,
      cond = \<lparr>parked = [], notified = []\<rparr>, workerCache = [],
      waiting = 0, heartbeatDone = 0, stopHeartbeat = Some 0, options = opts,
      heap = (\<lambda>w. \<lparr>task = [], recycleTime = 0\<rparr>), live = [],
      executing = (\<lambda>w. None), fresh = 0,
      scavengers = (if DisablePurge opts then [] else [0]), cancelled = [],
      contexts = 1, executed = [], recovered = []\<rparr>"

definition NewPool :: "int \<Rightarrow> Options \<Rightarrow> error + Pool" where
  "NewPool sz0 opts0 =
     (let sz = (if sz0 \<le> 0 then - 1 else sz0) in
      if \<not> DisablePurge opts0 \<and> ExpiryDuration opts0 < 0 then Inl ErrInvalidPoolExpiry
      else
        let opts1 = (if \<not> DisablePurge opts0 \<and> ExpiryDuration opts0 = 0
                     then opts0\<lparr>ExpiryDuration := DefaultCleanIntervalTime\<rparr> else opts0);
            opts = (if Logger opts1 = None then opts1\<lparr>Logger := Some defaultLogger\<rparr> else opts1);
            p = emptyPool (int32 sz) opts
        in if PreAlloc opts then
             (if sz = - 1 then Inl ErrInvalidPreAllocSize
              else Inr (p (newWorkerArray loopQueueType sz)))
           else Inr (p (newWorkerArray stackType 0)))"

definition Running :: "Pool \<Rightarrow> int" where
  "Running p = running p"

definition Waiting :: "Pool \<Rightarrow> int" where
  "Waiting p = waiting p"

definition Cap :: "Pool \<Rightarrow> int" where
  "Cap p = capacity p"

definition Free :: "Pool \<Rightarrow> int" where
  "Free p = (let c = Cap p in if c < 0 then - 1 else c - Running p)"

definition IsClosed :: "Pool \<Rightarrow> bool" where
  "IsClosed p = (state p = CLOSED)"

definition addRunning :: "Pool \<Rightarrow> int \<Rightarrow> Pool" where
  "addRunning p delta = p\<lparr>running := int32 (running p + int32 delta)\<rparr>"

definition addWaiting :: "Pool \<Rightarrow> int \<Rightarrow> Pool" where
  "addWaiting p delta = p\<lparr>waiting := int32 (waiting p + int32 delta)\<rparr>"

definition Tune :: "Pool \<Rightarrow> int \<Rightarrow> Pool" where
  "Tune p sz =
     (let capacity = Cap p in
      if capacity = - 1 \<or> sz \<le> 0 \<or> sz = capacity \<or> PreAlloc (options p) then p
      else
        let p1 = p\<lparr>capacity := int32 sz\<rparr> in
        if sz > capacity then
          (if sz - capacity = 1 then p1\<lparr>cond := Signal (cond p1)\<rparr>
           else p1\<lparr>cond := Broadcast (cond p1)\<rparr>)
        else p1)"

section \<open>Workers\<close>

text \<open>\<^verbatim>\<open>w.task <- t\<close>: the value joins the channel of worker \<open>w\<close>.\<close>

definition send :: "Pool \<Rightarrow> wid \<Rightarrow> task \<Rightarrow> Pool" where
  "send p w t = p\<lparr>heap := (heap p)(w := (heap p w)\<lparr>task := task (heap p w) @ [t]\<rparr>)\<rparr>"

text \<open>
  \<^verbatim>\<open>p.workerCache.Get()\<close>: a worker object put back earlier, or else a new one
  with an empty channel.
\<close>

definition workerCache_Get :: "Pool \<Rightarrow> wid \<times> Pool" where
  "workerCache_Get p =
     (case workerCache p of
        [] \<Rightarrow> (fresh p, p\<lparr>fresh := Suc (fresh p),
                            heap := (heap p)(fresh p := \<lparr>task = [], recycleTime = 0\<rparr>)\<rparr>)
      | w # ws \<Rightarrow> (w, p\<lparr>workerCache := ws\<rparr>))"

text \<open>\<^verbatim>\<open>w.run()\<close>: count the worker, then start its goroutine at the head of its loop.\<close>

definition run :: "Pool \<Rightarrow> wid \<Rightarrow> Pool" where
  "run p w =
     (let p1 = addRunning p 1
      in p1\<lparr>live := live p1 @ [w], executing := (executing p1)(w := None)\<rparr>)"

definition spawnWorker :: "Pool \<Rightarrow> Pool \<times> wid" where
  "spawnWorker p = (case workerCache_Get p of (w, p1) \<Rightarrow> (run p1 w, w))"

text \<open>
  The deferred function of the worker goroutine; \<open>r\<close> is what \<^verbatim>\<open>recover()\<close> returns
  (the task that panicked, if one did). The goroutine ends with it.
\<close>

definition worker_exit :: "Pool \<Rightarrow> wid \<Rightarrow> nat option \<Rightarrow> Pool" where
  "worker_exit p w r =
     (let p1 = addRunning p (- 1);
          p2 = p1\<lparr>workerCache := w # workerCache p1\<rparr>;
          p3 = (case r of None \<Rightarrow> p2 | Some x \<Rightarrow> p2\<lparr>recovered := recovered p2 @ [x]\<rparr>);
          p4 = p3\<lparr>cond := Signal (cond p3)\<rparr>
      in p4\<lparr>live := remove1 w (live p4), executing := (executing p4)(w := None)\<rparr>)"

section \<open>Returning a worker to the pool\<close>

text \<open>The part of \<^verbatim>\<open>revertWorker\<close> that runs under \<^verbatim>\<open>p.lock\<close>.\<close>

definition revertWorker_locked :: "Pool \<Rightarrow> wid \<Rightarrow> Pool \<times> bool" where
  "revertWorker_locked p worker =
     (if IsClosed p then (p, False)
      else
        (case insert_worker (workers p) worker of
           None \<Rightarrow> (p, False)
         | Some q \<Rightarrow> (p\<lparr>workers := q, cond := Signal (cond p)\<rparr>, True)))"

definition revertWorker :: "Pool \<Rightarrow> wid \<Rightarrow> int \<Rightarrow> Pool \<times> bool" where
  "revertWorker p worker now =
     (let capacity = Cap p in
      if (capacity > 0 \<and> Running p > capacity) \<or> IsClosed p
      then (p\<lparr>cond := Broadcast (cond p)\<rparr>, False)
      else revertWorker_locked
             (p\<lparr>heap := (heap p)(worker := (heap p worker)\<lparr>recycleTime := now\<rparr>)\<rparr>) worker)"

text \<open>
  The worker goroutine, \<^verbatim>\<open>for f := range w.task\<close>. \<open>worker_recv\<close> takes the next
  value from the channel when the worker is at the head of its loop; \<open>worker_finish\<close> is
  the end of the call \<^verbatim>\<open>f()\<close> and what follows it, at time \<open>now\<close>.
\<close>

definition worker_recv :: "Pool \<Rightarrow> wid \<Rightarrow> Pool" where
  "worker_recv p w =
     (if w \<notin> set (live p) \<or> executing p w \<noteq> None then p
      else
        (case task (heap p w) of
           [] \<Rightarrow> p
         | f # fs \<Rightarrow>
             let p1 = p\<lparr>heap := (heap p)(w := (heap p w)\<lparr>task := fs\<rparr>)\<rparr> in
             (case f of
                None \<Rightarrow> worker_exit p1 w None
              | Some g \<Rightarrow> p1\<lparr>executing := (executing p1)(w := Some g)\<rparr>)))"

definition worker_finish :: "Pool \<Rightarrow> wid \<Rightarrow> int \<Rightarrow> Pool" where
  "worker_finish p w now =
     (if w \<notin> set (live p) then p
      else
        (case executing p w of
           None \<Rightarrow> p
         | Some g \<Rightarrow>
             let p1 = p\<lparr>executed := executed p @ [fid g],
                        executing := (executing p)(w := None)\<rparr> in
             if panics g then worker_exit p1 w (Some (fid g))
             else
               (case revertWorker p1 w now of
                  (p2, ok) \<Rightarrow> if ok then p2 else worker_exit p2 w None)))"

section \<open>Acquiring a worker and submitting\<close>

datatype acquired = Worker wid | NoWorker | Parked

text \<open>
  From the label \<^verbatim>\<open>retry\<close> to \<^verbatim>\<open>p.cond.Wait()\<close>; \<open>caller\<close> names the goroutine that
  parks.
\<close>

definition retry :: "Pool \<Rightarrow> task \<Rightarrow> Pool \<times> acquired" where
  "retry p caller =
     (if MaxBlockingTasks (options p) \<noteq> 0 \<and> Waiting p \<ge> MaxBlockingTasks (options p)
      then (p, NoWorker)
      else
        let p1 = addWaiting p 1
        in (p1\<lparr>cond := Wait (cond p1) caller\<rparr>, Parked))"

definition retrieveWorker :: "Pool \<Rightarrow> task \<Rightarrow> Pool \<times> acquired" where
  "retrieveWorker p caller =
     (case detach (workers p) of
        (Some w, q) \<Rightarrow> (p\<lparr>workers := q\<rparr>, Worker w)
      | (None, q) \<Rightarrow>
          let capacity = Cap p in
          if capacity = - 1 \<or> capacity > Running p then
            (case spawnWorker p of (p1, w) \<Rightarrow> (p1, Worker w))
          else if Nonblocking (options p) then (p, NoWorker)
          else retry p caller)"

text \<open>\<^verbatim>\<open>retrieveWorker\<close> from the return of \<^verbatim>\<open>p.cond.Wait()\<close> on.\<close>

definition retrieveWorker_wake :: "Pool \<Rightarrow> task \<Rightarrow> Pool \<times> acquired" where
  "retrieveWorker_wake p0 caller =
     (let p = addWaiting p0 (- 1) in
      if IsClosed p then (p, NoWorker)
      else
        let nw = Running p in
        if nw = 0 then (case spawnWorker p of (p1, w) \<Rightarrow> (p1, Worker w))
        else
          (case detach (workers p) of
             (None, q) \<Rightarrow>
               if nw < Cap p then (case spawnWorker p of (p1, w) \<Rightarrow> (p1, Worker w))
               else retry p caller
           | (Some w, q) \<Rightarrow> (p\<lparr>workers := q\<rparr>, Worker w)))"

text \<open>What a call has come to: it returned (an error or \<^verbatim>\<open>nil\<close>), or it has not yet.\<close>

datatype outcome = Returned "error option" | Blocked

definition hand_over :: "Pool \<times> acquired \<Rightarrow> task \<Rightarrow> Pool \<times> outcome" where
  "hand_over r t =
     (case r of
        (p, NoWorker) \<Rightarrow> (p, Returned (Some ErrPoolOverload))
      | (p, Worker w) \<Rightarrow> (send p w t, Returned None)
      | (p, Parked) \<Rightarrow> (p, Blocked))"

definition Submit :: "Pool \<Rightarrow> task \<Rightarrow> Pool \<times> outcome" where
  "Submit p t =
     (if IsClosed p then (p, Returned (Some ErrPoolClosed))
      else hand_over (retrieveWorker p t) t)"

text \<open>A parked call of \<^verbatim>\<open>Submit\<close> that was notified runs on.\<close>

definition Submit_wake :: "Pool \<Rightarrow> task \<Rightarrow> Pool \<times> outcome" where
  "Submit_wake p t = hand_over (retrieveWorker_wake p t) t"

definition resume :: "Pool \<Rightarrow> nat \<Rightarrow> Pool \<times> outcome" where
  "resume p i =
     (let ns = notified (cond p) in
      if i < length ns
      then Submit_wake (p\<lparr>cond := (cond p)\<lparr>notified := take i ns @ drop (Suc i) ns\<rparr>\<rparr>) (ns ! i)
      else (p, Blocked))"

section \<open>Closing and rebooting\<close>

text \<open>
  Modelled from the spec: \<^verbatim>\<open>workers.reset()\<close> empties the queue and sends every
  worker in it the stop sentinel.
\<close>

definition reset :: "Pool \<Rightarrow> Pool" where
  "reset p =
     (let p1 = fold (\<lambda>w q. send q w None) (items (workers p)) p
      in p1\<lparr>workers := (workers p1)\<lparr>items := []\<rparr>\<rparr>)"

definition Release :: "Pool \<Rightarrow> Pool" where
  "Release p =
     (if state p \<noteq> OPENED then p
      else
        let p1 = p\<lparr>state := CLOSED\<rparr>;
            p2 = reset p1
        in p2\<lparr>cond := Broadcast (cond p2)\<rparr>)"

text \<open>
  The polling loop of \<^verbatim>\<open>ReleaseTimeout\<close>. \<open>now\<close> is the reading of the clock at the
  loop's test. Each element of \<open>env\<close> belongs to one \<^verbatim>\<open>time.Sleep\<close>: what the other
  goroutines did to the pool meanwhile, and by how much the sleep ran over its ten
  milliseconds. When the observations are used up the loop is still polling.
\<close>

fun poll :: "int \<Rightarrow> int \<Rightarrow> (nat \<times> (Pool \<Rightarrow> Pool)) list \<Rightarrow> Pool \<Rightarrow> Pool \<times> outcome" where
  "poll endTime now [] p =
     (if now < endTime then
        (if Running p = 0 \<and> (DisablePurge (options p) \<or> heartbeatDone p = 1)
         then (p, Returned None)
         else (p, Blocked))
      else (p, Returned (Some ErrTimeout)))"
| "poll endTime now ((d, f) # env) p =
     (if now < endTime then
        (if Running p = 0 \<and> (DisablePurge (options p) \<or> heartbeatDone p = 1)
         then (p, Returned None)
         else poll endTime (now + 10000000 + int d) env (f p))
      else (p, Returned (Some ErrTimeout)))"

text \<open>
  \<open>now\<close> is the clock when \<open>endTime\<close> is computed, and \<open>d0\<close> the time that passes until
  the loop's first test: the clock does not run backwards.
\<close>

definition ReleaseTimeout ::
  "Pool \<Rightarrow> int \<Rightarrow> int \<Rightarrow> nat \<Rightarrow> (nat \<times> (Pool \<Rightarrow> Pool)) list \<Rightarrow> Pool \<times> outcome" where
  "ReleaseTimeout p timeout now d0 env =
     (case stopHeartbeat p of
        None \<Rightarrow> (p, Returned (Some ErrPoolClosed))
      | Some ctx \<Rightarrow>
          if IsClosed p then (p, Returned (Some ErrPoolClosed))
          else
            let p1 = p\<lparr>cancelled := ctx # cancelled p\<rparr>;
                p2 = p1\<lparr>stopHeartbeat := None\<rparr>;
                p3 = Release p2;
                endTime = now + timeout
            in poll endTime (now + int d0) env p3)"

definition Reboot :: "Pool \<Rightarrow> Pool" where
  "Reboot p =
     (if state p = CLOSED then
        let p1 = p\<lparr>state := OPENED\<rparr>;
            p2 = p1\<lparr>heartbeatDone := 0\<rparr>;
            ctx = contexts p2;
            p3 = p2\<lparr>stopHeartbeat := Some ctx, contexts := Suc ctx\<rparr>
        in if \<not> DisablePurge (options p3) then p3\<lparr>scavengers := scavengers p3 @ [ctx]\<rparr>
           else p3
      else p)"

section \<open>The scavenger\<close>

text \<open>
  Modelled from the spec: \<^verbatim>\<open>workers.retrieveExpiry(duration)\<close> takes out of the queue,
  and returns, the workers whose time stamp is older than \<open>now - duration\<close>.
\<close>

definition retrieveExpiry :: "Pool \<Rightarrow> int \<Rightarrow> int \<Rightarrow> wid list \<times> workerArray" where
  "retrieveExpiry p duration now =
     (filter (\<lambda>w. recycleTime (heap p w) < now - duration) (items (workers p)),
      (workers p)\<lparr>items :=
         filter (\<lambda>w. \<not> recycleTime (heap p w) < now - duration) (items (workers p))\<rparr>)"

text \<open>
  \<^verbatim>\<open>purgePeriodically\<close>, the goroutine started with context \<open>ctx\<close>. \<open>purge_stop\<close> is its
  deferred function, with which it ends; \<open>purge_tick\<close> is one round of its loop after
  the ticker fired, at time \<open>now\<close>; \<open>purge_done\<close> is the round in which it finds its
  context cancelled.
\<close>

definition purge_stop :: "Pool \<Rightarrow> nat \<Rightarrow> Pool" where
  "purge_stop p ctx = p\<lparr>heartbeatDone := 1, scavengers := remove1 ctx (scavengers p)\<rparr>"

definition purge_tick :: "Pool \<Rightarrow> nat \<Rightarrow> int \<Rightarrow> Pool" where
  "purge_tick p ctx now =
     (if ctx \<in> set (scavengers p) then
        (if IsClosed p then purge_stop p ctx
         else
           (case retrieveExpiry p (ExpiryDuration (options p)) now of
              (expiredWorkers, a) \<Rightarrow>
                let p1 = p\<lparr>workers := a\<rparr>;
                    p2 = fold (\<lambda>w q. send q w None) expiredWorkers p1
                in if Running p2 = 0 \<or> (Waiting p2 > 0 \<and> Free p2 > 0)
                   then p2\<lparr>cond := Broadcast (cond p2)\<rparr> else p2))
      else p)"

definition purge_done :: "Pool \<Rightarrow> nat \<Rightarrow> Pool" where
  "purge_done p ctx =
     (if ctx \<in> set (scavengers p) \<and> ctx \<in> set (cancelled p) then purge_stop p ctx else p)"

section \<open>Sequences of operations\<close>

text \<open>
  The operations on a pool, as its callers and its goroutines perform them one after
  the other: a call of \<^verbatim>\<open>Submit\<close>, the resumption of the \<open>i\<close>-th notified submitter,
  calls of \<^verbatim>\<open>Tune\<close>, \<^verbatim>\<open>Release\<close>, \<^verbatim>\<open>Reboot\<close> and \<^verbatim>\<open>ReleaseTimeout\<close> (up to its
  first sleep: what happens while it sleeps are the other operations), the two steps of
  a worker goroutine and the two of a scavenger. An operation that cannot take place
  leaves the pool as it is.
\<close>

datatype operation =
  OpSubmit task | OpWake nat | OpTune int | OpRelease | OpReboot
| OpReleaseTimeout int int nat
| OpRecv wid | OpFinish wid int
| OpPurge nat int | OpPurgeDone nat

fun step :: "Pool \<Rightarrow> operation \<Rightarrow> Pool" where
  "step p (OpSubmit t) = fst (Submit p t)"
| "step p (OpWake i) = fst (resume p i)"
| "step p (OpTune sz) = Tune p sz"
| "step p OpRelease = Release p"
| "step p OpReboot = Reboot p"
| "step p (OpReleaseTimeout timeout now d0) = fst (ReleaseTimeout p timeout now d0 [])"
| "step p (OpRecv w) = worker_recv p w"
| "step p (OpFinish w now) = worker_finish p w now"
| "step p (OpPurge ctx now) = purge_tick p ctx now"
| "step p (OpPurgeDone ctx) = purge_done p ctx"

definition exec :: "Pool \<Rightarrow> operation list \<Rightarrow> Pool" where
  "exec p ops = foldl step p ops"

section \<open>The spin lock\<close>

text \<open>
  The lock is a \<^verbatim>\<open>uint32\<close>. \<open>Gosched_loop i backoff n\<close> is the inner \<^verbatim>\<open>for\<close> loop of
  \<^verbatim>\<open>Lock\<close>, counting the calls of \<^verbatim>\<open>runtime.Gosched()\<close>.
\<close>

type_synonym spinLock = "32 word"

definition maxBackoff :: int where
  "maxBackoff = 16"

function Gosched_loop :: "int \<Rightarrow> int \<Rightarrow> nat \<Rightarrow> nat" where
  "Gosched_loop i backoff n = (if i < backoff then Gosched_loop (i + 1) backoff (Suc n) else n)"
  by pat_completeness auto
termination
  by (relation "measure (\<lambda>(i, backoff, n). nat (backoff - i))") auto

declare Gosched_loop.simps [simp del]

text \<open>
  The outer loop of \<^verbatim>\<open>Lock\<close>. Other goroutines store into the lock between two
  attempts, so the values that the successive compare-and-swap attempts find in it are
  given as a list; when the list is used up the caller is still spinning. The result is
  the value left in the lock and, for each failed attempt, the number of yields after it.
\<close>

fun Lock_loop :: "int \<Rightarrow> spinLock list \<Rightarrow> nat list \<Rightarrow> (spinLock \<times> nat list) option" where
  "Lock_loop backoff [] ys = None"
| "Lock_loop backoff (v # vs) ys =
     (if v = 0 then Some (1, ys)
      else Lock_loop (if backoff < maxBackoff then push_bit 1 backoff else backoff) vs
             (ys @ [Gosched_loop 0 backoff 0]))"

definition Lock :: "spinLock list \<Rightarrow> (spinLock \<times> nat list) option" where
  "Lock vs = Lock_loop 1 vs []"

definition Unlock :: "spinLock \<Rightarrow> spinLock" where
  "Unlock sl = 0"

text \<open>What one failed attempt does to the backoff counter.\<close>

definition next_backoff :: "int \<Rightarrow> int" where
  "next_backoff b = (if b < maxBackoff then push_bit 1 b else b)"

section \<open>Auxiliary notions\<close>

text \<open>The zero value of \<^verbatim>\<open>Options\<close>: no option is set.\<close>

definition zeroOptions :: Options where
  "zeroOptions = \<lparr>ExpiryDuration = 0, PreAlloc = False, MaxBlockingTasks = 0,
     Nonblocking = False, PanicHandler = None, Logger = None, DisablePurge = False\<rparr>"

text \<open>The pool after \<^verbatim>\<open>worker.recycleTime = time.Now()\<close>.\<close>

definition stamp :: "Pool \<Rightarrow> wid \<Rightarrow> int \<Rightarrow> Pool" where
  "stamp p w now = p\<lparr>heap := (heap p)(w := (heap p w)\<lparr>recycleTime := now\<rparr>)\<rparr>"

text \<open>The worker objects after each worker of \<open>ws\<close> was sent the stop sentinel.\<close>

definition stop_all :: "wid list \<Rightarrow> (wid \<Rightarrow> goWorker) \<Rightarrow> (wid \<Rightarrow> goWorker)" where
  "stop_all ws h = fold (\<lambda>w h. h(w := (h w)\<lparr>task := task (h w) @ [None]\<rparr>)) ws h"

text \<open>
  The pool that \<open>NewPool\<close> builds for a size \<open>c\<close> between 1 and \<open>2 ^ 31 - 1\<close> when
  no option but \<^verbatim>\<open>Nonblocking\<close> is set.
\<close>

definition samplePool :: "int \<Rightarrow> bool \<Rightarrow> Pool" where
  "samplePool c nb =
     emptyPool c (zeroOptions\<lparr>ExpiryDuration := DefaultCleanIntervalTime, Nonblocking := nb,
                    Logger := Some defaultLogger\<rparr>) (newWorkerArray stackType 0)"

text \<open>
  A pool of positive capacity whose running count is the number of its live worker
  goroutines and is within the capacity.
\<close>

definition bounded :: "Pool \<Rightarrow> bool" where
  "bounded p \<longleftrightarrow>
     0 < capacity p \<and> capacity p < 2147483648 \<and>
     running p = int (length (live p)) \<and> running p \<le> capacity p"


text \<open>
  How the worker objects and goroutines of a pool hang together: no goroutine, queue
  entry or cached object occurs twice; a worker in the idle queue is alive, at the head
  of its loop, with an empty channel; a cached object belongs to no goroutine and its
  channel is empty; the channel of a live worker holds at most one value, and none while
  the worker runs a task; worker identities in use are below \<open>fresh\<close>; the running count
  is an \<^verbatim>\<open>int32\<close>.
\<close>

definition consistent :: "Pool \<Rightarrow> bool" where
  "consistent p \<longleftrightarrow>
     distinct (live p) \<and> distinct (items (workers p)) \<and> distinct (workerCache p) \<and>
     (\<forall>w\<in>set (items (workers p)).
        w \<in> set (live p) \<and> executing p w = None \<and> task (heap p w) = []) \<and>
     (\<forall>w\<in>set (workerCache p).
        w \<notin> set (live p) \<and> w < fresh p \<and> task (heap p w) = []) \<and>
     (\<forall>w\<in>set (live p).
        w < fresh p \<and> length (task (heap p w)) \<le> 1 \<and>
        (executing p w = None \<or> task (heap p w) = [])) \<and>
     - 2147483648 \<le> running p \<and> running p < 2147483648"

text \<open>A worker that can be handed a task: alive, idle, its channel empty, out of the queue.\<close>

definition ready :: "Pool \<Rightarrow> wid \<Rightarrow> bool" where
  "ready p w \<longleftrightarrow>
     w \<in> set (live p) \<and> executing p w = None \<and> task (heap p w) = [] \<and>
     w \<notin> set (items (workers p))"

text \<open>Two pools with the same state and the same cancel function.\<close>

definition same_gate :: "Pool \<Rightarrow> Pool \<Rightarrow> bool" where
  "same_gate q p \<longleftrightarrow> state q = state p \<and> stopHeartbeat q = stopHeartbeat p"

text \<open>A pool that is closed or else holds the cancel function of its scavenger.\<close>

definition cancellable :: "Pool \<Rightarrow> bool" where
  "cancellable p \<longleftrightarrow> state p = CLOSED \<or> stopHeartbeat p \<noteq> None"

text \<open>The pool that \<open>NewPool\<close> builds for such a size when only the purge is disabled.\<close>

definition noPurgePool :: "int \<Rightarrow> Pool" where
  "noPurgePool c =
     emptyPool c (zeroOptions\<lparr>Logger := Some defaultLogger, DisablePurge := True\<rparr>)
       (newWorkerArray stackType 0)"

section \<open>Properties of the spin lock\<close>

lemma Gosched_loop_count: "Gosched_loop i backoff n = n + nat (backoff - i)"
proof (induction i backoff n rule: Gosched_loop.induct)
  case (1 i backoff n)
  show ?case
  proof (cases "i < backoff")
    case True
    with 1 show ?thesis by (subst Gosched_loop.simps) simp
  next
    case False
    then show ?thesis by (subst Gosched_loop.simps) simp
  qed
qed

lemma Lock_loop_fails:
  "\<forall>v\<in>set vs. v \<noteq> 0 \<Longrightarrow>
   Lock_loop b (vs @ 0 # rest) ys =
     Some (1, ys @ map (\<lambda>k. nat ((next_backoff ^^ k) b)) [0..<length vs])"
proof (induction vs arbitrary: b ys)
  case Nil
  then show ?case by simp
next
  case (Cons v vs)
  have a: "[0..<length (v # vs)] = 0 # map Suc [0..<length vs]"
    unfolding map_Suc_upt by (simp only: list.size upt_conv_Cons) (simp add: upt_conv_Cons)
  have b: "map (\<lambda>k. nat ((next_backoff ^^ k) b)) [0..<length (v # vs)] =
        nat b # map (\<lambda>k. nat ((next_backoff ^^ k) (next_backoff b))) [0..<length vs]"
    unfolding a by (simp add: funpow_swap1 comp_def)
  from Cons.prems have v: "v \<noteq> 0" and vs: "\<forall>v\<in>set vs. v \<noteq> 0" by simp_all
  have "Lock_loop b ((v # vs) @ 0 # rest) ys =
        Lock_loop (next_backoff b) (vs @ 0 # rest) (ys @ [nat b])"
    using v by (simp add: Gosched_loop_count next_backoff_def)
  also have "\<dots> = Some (1, (ys @ [nat b]) @
               map (\<lambda>k. nat ((next_backoff ^^ k) (next_backoff b))) [0..<length vs])"
    by (rule Cons.IH [OF vs])
  finally show ?case unfolding b by simp
qed

lemma next_backoff_pow: "(next_backoff ^^ k) 1 = min (2 ^ k) 16"
proof (induction k)
  case 0
  then show ?case by simp
next
  case (Suc k)
  show ?case
  proof (cases "k < 4")
    case True
    then have "k = 0 \<or> k = 1 \<or> k = 2 \<or> k = 3" by arith
    then show ?thesis using Suc
      by (auto simp: next_backoff_def maxBackoff_def)
  next
    case False
    then have "(2::int) ^ 4 \<le> 2 ^ k" by (intro power_increasing) auto
    then have "min ((2::int) ^ k) 16 = 16" "min ((2::int) ^ Suc k) 16 = 16" by auto
    with Suc show ?thesis by (simp add: next_backoff_def maxBackoff_def)
  qed
qed

lemma nat_min_pow: "nat (min (2 ^ k) 16) = min (2 ^ k) (16::nat)"
proof -
  have "int (min (2 ^ k) 16) = min ((2::int) ^ k) 16"
    unfolding of_nat_min by simp
  then have "nat (min ((2::int) ^ k) 16) = nat (int (min (2 ^ k) 16))" by simp
  then show ?thesis by (simp only: nat_int)
qed

text \<open>As long as every attempt finds the lock held, \<open>Lock\<close> goes on spinning.\<close>

lemma Lock_spins: "\<forall>v\<in>set vs. v \<noteq> 0 \<Longrightarrow> Lock_loop b vs ys = None"
  by (induction vs arbitrary: b ys) auto

text \<open>
  Claim C7. When the compare-and-swap of \<open>Lock\<close> fails \<open>length vs\<close> times and then
  succeeds, the \<open>k\<close>-th failure (counted from 0) is followed by \<open>min (2 ^ k) 16\<close> yields:
  1, 2, 4, 8, 16, 16, ...; the lock is then held (value 1), whatever is found in it
  later. \<open>Unlock\<close> stores the free value 0 whatever the lock held.
\<close>

theorem Lock_backoff:
  "((\<forall>v\<in>set vs. v \<noteq> 0) \<longrightarrow>
     Lock (vs @ 0 # rest) = Some (1, map (\<lambda>k. min (2 ^ k) 16) [0..<length vs])) \<and>
   Unlock sl = 0"
  by (simp add: Lock_def Lock_loop_fails next_backoff_pow nat_min_pow Unlock_def)

theorem Lock_backoff_witness:
  "Lock ([1, 1, 7, 1, 1, 1] @ 0 # [1]) = Some (1, [1, 2, 4, 8, 16, 16]) \<and> Unlock 1 = 0"
  using Lock_backoff [of "[1, 1, 7, 1, 1, 1]" "[1]" 1]
  by (simp add: upt_rec)

section \<open>Properties of construction and tuning\<close>

lemma int32_id: "- 2147483648 \<le> x \<Longrightarrow> x < 2147483648 \<Longrightarrow> int32 x = x"
  by (simp add: int32_def)

lemma int32_range: "- 2147483648 \<le> int32 x \<and> int32 x < 2147483648"
proof -
  have "0 \<le> (x + 2147483648) mod 4294967296" "(x + 2147483648) mod 4294967296 < 4294967296"
    by simp_all
  then show ?thesis unfolding int32_def by linarith
qed

text \<open>\<open>NewPool\<close> fails in exactly two cases.\<close>

lemma NewPool_fails_iff:
  "NewPool sz opts = Inl e \<longleftrightarrow>
     (\<not> DisablePurge opts \<and> ExpiryDuration opts < 0 \<and> e = ErrInvalidPoolExpiry) \<or>
     ((DisablePurge opts \<or> 0 \<le> ExpiryDuration opts) \<and> PreAlloc opts \<and> sz \<le> 0 \<and>
        e = ErrInvalidPreAllocSize)"
  by (auto simp: NewPool_def emptyPool_def Let_def split: if_splits)

lemma NewPool_capacity:
  "NewPool sz opts = Inr p \<Longrightarrow> capacity p = (if sz \<le> 0 then - 1 else int32 sz)"
  by (auto simp: NewPool_def emptyPool_def Let_def int32_def split: if_splits)

lemma NewPool_samplePool:
  "0 < c \<Longrightarrow> c < 2147483648 \<Longrightarrow> NewPool c (zeroOptions\<lparr>Nonblocking := nb\<rparr>) = Inr (samplePool c nb)"
  by (simp add: NewPool_def samplePool_def zeroOptions_def Let_def int32_id)

lemma NewPool_noPurgePool:
  "0 < c \<Longrightarrow> c < 2147483648 \<Longrightarrow> NewPool c (zeroOptions\<lparr>DisablePurge := True\<rparr>) = Inr (noPurgePool c)"
  by (simp add: NewPool_def noPurgePool_def zeroOptions_def Let_def int32_id)

lemma pair_snd: "snd x = b \<Longrightarrow> x = (fst x, b)"
  by auto

text \<open>
  Claim C4, as stated, fails: a negative expiry interval is accepted when the purge is
  disabled, because \<open>NewPool\<close> looks at the interval only under
  \<^verbatim>\<open>if !opts.DisablePurge\<close>.
\<close>

theorem NewPool_negative_expiry_accepted:
  "ExpiryDuration (zeroOptions\<lparr>ExpiryDuration := - 1, DisablePurge := True\<rparr>) < 0 \<and>
   \<not> isl (NewPool 1 (zeroOptions\<lparr>ExpiryDuration := - 1, DisablePurge := True\<rparr>)) \<and>
   map_sum id (\<lambda>p. ExpiryDuration (options p))
     (NewPool 1 (zeroOptions\<lparr>ExpiryDuration := - 1, DisablePurge := True\<rparr>)) = Inr (- 1)"
  by (simp add: NewPool_def emptyPool_def zeroOptions_def Let_def)

text \<open>
  Claim C4, amended. \<open>NewPool\<close> fails with \<open>ErrInvalidPoolExpiry\<close> whenever the purge is
  not disabled and the expiry interval is negative, and it fails (with that error, or
  else with \<open>ErrInvalidPreAllocSize\<close>) whenever pre-allocation is requested with a size
  \<open>\<le> 0\<close>. When the purge is not disabled, a zero interval is replaced by the default and
  is no reason to fail. When the purge is disabled the interval is not looked at: the
  pool is built with the interval as given.
\<close>

theorem NewPool_configuration:
  "(\<not> DisablePurge opts \<and> ExpiryDuration opts < 0 \<longrightarrow>
      NewPool sz opts = Inl ErrInvalidPoolExpiry) \<and>
   (PreAlloc opts \<and> sz \<le> 0 \<longrightarrow>
      NewPool sz opts =
        Inl (if \<not> DisablePurge opts \<and> ExpiryDuration opts < 0 then ErrInvalidPoolExpiry
             else ErrInvalidPreAllocSize)) \<and>
   (\<not> DisablePurge opts \<and> ExpiryDuration opts = 0 \<and> \<not> (PreAlloc opts \<and> sz \<le> 0) \<longrightarrow>
      (\<exists>p. NewPool sz opts = Inr p \<and> ExpiryDuration (options p) = DefaultCleanIntervalTime)) \<and>
   (DisablePurge opts \<and> \<not> (PreAlloc opts \<and> sz \<le> 0) \<longrightarrow>
      (\<exists>p. NewPool sz opts = Inr p \<and> ExpiryDuration (options p) = ExpiryDuration opts))"
  by (auto simp: NewPool_def emptyPool_def Let_def)

theorem NewPool_configuration_witness:
  "NewPool 4 (zeroOptions\<lparr>ExpiryDuration := - 5\<rparr>) = Inl ErrInvalidPoolExpiry \<and>
   NewPool 0 (zeroOptions\<lparr>PreAlloc := True\<rparr>) = Inl ErrInvalidPreAllocSize \<and>
   (\<exists>p. NewPool 4 zeroOptions = Inr p \<and> ExpiryDuration (options p) = DefaultCleanIntervalTime) \<and>
   (\<exists>p. NewPool 4 (zeroOptions\<lparr>ExpiryDuration := - 5, DisablePurge := True\<rparr>) = Inr p \<and>
        ExpiryDuration (options p) = - 5)"
  using NewPool_configuration [of "zeroOptions\<lparr>ExpiryDuration := - 5\<rparr>" 4]
    NewPool_configuration [of "zeroOptions\<lparr>PreAlloc := True\<rparr>" 0]
    NewPool_configuration [of zeroOptions 4]
    NewPool_configuration [of "zeroOptions\<lparr>ExpiryDuration := - 5, DisablePurge := True\<rparr>" 4]
  by (simp add: zeroOptions_def)

text \<open>What \<open>Tune\<close> does, case by case.\<close>

lemma Tune_noop:
  "capacity p = - 1 \<or> sz \<le> 0 \<or> sz = capacity p \<or> PreAlloc (options p) \<Longrightarrow> Tune p sz = p"
  by (auto simp: Tune_def Cap_def)

lemma Tune_effect:
  assumes "capacity p \<noteq> - 1" "0 < sz" "sz \<noteq> capacity p" "\<not> PreAlloc (options p)"
  shows "Tune p sz = p\<lparr>capacity := int32 sz,
           cond := (if sz - capacity p = 1 then Signal (cond p)
                    else if capacity p < sz then Broadcast (cond p) else cond p)\<rparr>"
  using assms by (auto simp: Tune_def Cap_def Let_def)

text \<open>A requested size that fits into 32 bits becomes the capacity.\<close>

lemma Tune_in_range:
  assumes "capacity p \<noteq> - 1" "0 < sz" "sz \<noteq> capacity p" "\<not> PreAlloc (options p)"
    and "sz < 2147483648"
  shows "capacity (Tune p sz) = sz"
  using assms by (simp add: Tune_effect int32_id)

lemma Tune_keeps_sign:
  assumes "capacity p = - 1 \<or> 0 < capacity p" and "sz < 2147483648"
  shows "capacity (Tune p sz) = - 1 \<or> 0 < capacity (Tune p sz)"
proof (cases "capacity p = - 1 \<or> sz \<le> 0 \<or> sz = capacity p \<or> PreAlloc (options p)")
  case True
  then show ?thesis using assms(1) by (simp add: Tune_noop)
next
  case False
  then show ?thesis using assms(2) by (simp add: Tune_in_range)
qed

text \<open>
  As long as every requested size fits into 32 bits, the capacity is \<open>- 1\<close> or positive
  after construction and any number of calls of \<open>Tune\<close>.
\<close>

lemma capacity_sign_in_range:
  assumes "NewPool sz opts = Inr p" "sz < 2147483648" "\<forall>s\<in>set szs. s < 2147483648"
  shows "capacity (foldl Tune p szs) = - 1 \<or> 0 < capacity (foldl Tune p szs)"
proof -
  have start: "capacity p = - 1 \<or> 0 < capacity p"
    using assms(1,2) by (auto simp: NewPool_capacity int32_id)
  have "capacity q = - 1 \<or> 0 < capacity q \<Longrightarrow> \<forall>s\<in>set szs. s < 2147483648 \<Longrightarrow>
        capacity (foldl Tune q szs) = - 1 \<or> 0 < capacity (foldl Tune q szs)" for q
  proof (induction szs arbitrary: q)
    case Nil
    then show ?case by simp
  next
    case (Cons s szs)
    from Cons.prems have "capacity (Tune q s) = - 1 \<or> 0 < capacity (Tune q s)"
      by (intro Tune_keeps_sign) simp_all
    with Cons show ?case by simp
  qed
  with start assms(3) show ?thesis by blast
qed

text \<open>
  Claim C5: \<open>Tune\<close> stores \<^verbatim>\<open>int32(size)\<close>. A requested size of \<open>2 ^ 32\<close>, which a
  64-bit \<^verbatim>\<open>int\<close> holds, leaves a pool of capacity 5 with capacity 0; and a requested
  size of \<open>2 ^ 32 + 1\<close> leaves a pool of capacity 1 at capacity 1 and yet wakes both of
  its parked submitters.
\<close>

theorem Tune_truncates:
  "map_sum id (\<lambda>p. capacity (Tune p 4294967296)) (NewPool 5 zeroOptions) = Inr 0 \<and>
   map_sum id
     (\<lambda>p0. let p = exec p0 [OpSubmit (Some (Func 0 False)), OpSubmit (Some (Func 1 False)),
                             OpSubmit (Some (Func 2 False))]
           in (capacity p, parked (cond p), capacity (Tune p 4294967297),
               notified (cond (Tune p 4294967297))))
     (NewPool 1 zeroOptions)
   = Inr (1, [Some (Func 1 False), Some (Func 2 False)], 1,
          [Some (Func 1 False), Some (Func 2 False)])"
  by code_simp

text \<open>
  Claim C10: \<open>NewPool\<close> stores \<^verbatim>\<open>int32(size)\<close> as well. A requested size of \<open>2 ^ 32\<close>
  gives a pool of capacity 0.
\<close>

theorem NewPool_truncates:
  "map_sum id capacity (NewPool 4294967296 zeroOptions) = Inr 0"
  by (simp add: NewPool_def emptyPool_def zeroOptions_def Let_def int32_def)

section \<open>Properties of closing\<close>

lemma fold_send: "fold (\<lambda>w q. send q w None) ws p = p\<lparr>heap := stop_all ws (heap p)\<rparr>"
  by (induction ws arbitrary: p) (simp_all add: stop_all_def send_def)

lemma reset_eq:
  "reset p = p\<lparr>heap := stop_all (items (workers p)) (heap p),
              workers := (workers p)\<lparr>items := []\<rparr>\<rparr>"
  by (simp add: reset_def fold_send Let_def)

lemma Release_open:
  "state p = OPENED \<Longrightarrow>
   Release p = p\<lparr>state := CLOSED, heap := stop_all (items (workers p)) (heap p),
                 workers := (workers p)\<lparr>items := []\<rparr>, cond := Broadcast (cond p)\<rparr>"
  by (simp add: Release_def reset_eq Let_def)

lemma ReleaseTimeout_fst:
  "fst (ReleaseTimeout p timeout now d0 []) =
     (case stopHeartbeat p of
        None \<Rightarrow> p
      | Some ctx \<Rightarrow>
          if IsClosed p then p
          else Release (p\<lparr>cancelled := ctx # cancelled p, stopHeartbeat := None\<rparr>))"
  by (simp add: ReleaseTimeout_def Let_def split: option.splits)

lemma Release_closed: "state p = CLOSED \<Longrightarrow> Release p = p"
  by (simp add: Release_def)

lemma Reboot_closed:
  "state p = CLOSED \<Longrightarrow>
   Reboot p = p\<lparr>state := OPENED, heartbeatDone := 0, stopHeartbeat := Some (contexts p),
                contexts := Suc (contexts p),
                scavengers := (if DisablePurge (options p) then scavengers p
                               else scavengers p @ [contexts p])\<rparr>"
  by (simp add: Reboot_def Let_def)

lemma retrieveWorker_empty_spawns:
  "items (workers p) = [] \<Longrightarrow> capacity p = - 1 \<or> running p < capacity p \<Longrightarrow>
   \<exists>q w. retrieveWorker p t = (q, Worker w)"
  by (auto simp: retrieveWorker_def detach_def Cap_def Running_def spawnWorker_def
      split: arrayType.splits prod.splits)

lemma retrieveWorker_empty_saturated:
  "items (workers p) = [] \<Longrightarrow> \<not> (capacity p = - 1 \<or> running p < capacity p) \<Longrightarrow>
   snd (retrieveWorker p t) =
     (if Nonblocking (options p) \<or>
         (MaxBlockingTasks (options p) \<noteq> 0 \<and> MaxBlockingTasks (options p) \<le> waiting p)
      then NoWorker else Parked)"
  by (auto simp: retrieveWorker_def detach_def Cap_def Running_def Waiting_def retry_def Let_def
      split: arrayType.splits)

text \<open>
  Claim C6, as stated, fails: a pool of capacity 1 in non-blocking mode whose only worker
  is still busy is closed and rebooted; the next \<open>Submit\<close> finds no idle worker and no
  room for a new one and returns \<open>ErrPoolOverload\<close>.
\<close>

theorem reboot_submit_overloaded:
  "map_sum id
     (\<lambda>p0. let p = exec p0 [OpSubmit (Some (Func 0 False))]
           in (state p, snd (Submit (Reboot (Release p)) (Some (Func 1 False)))))
     (NewPool 1 (zeroOptions\<lparr>Nonblocking := True\<rparr>))
   = Inr (OPENED, Returned (Some ErrPoolOverload))"
  by code_simp

text \<open>
  Claim C6, amended. On an open pool, \<open>Release\<close> followed by \<open>Submit\<close> returns
  \<open>ErrPoolClosed\<close>; a second \<open>Release\<close> changes nothing, and \<open>Reboot\<close> changes nothing on
  the open pool. After \<open>Release\<close> and \<open>Reboot\<close> the pool is open again and \<open>Submit\<close> does
  not return \<open>ErrPoolClosed\<close>: it succeeds when the capacity is \<open>- 1\<close> or above the running
  count (the workers that were busy at the time of \<open>Release\<close> still count), and otherwise
  it returns \<open>ErrPoolOverload\<close> (non-blocking mode, or the limit of blocked callers is
  reached) or the caller is parked.
\<close>

theorem close_reboot_submit:
  "state p = OPENED \<longrightarrow>
     Submit (Release p) t = (Release p, Returned (Some ErrPoolClosed)) \<and>
     Release (Release p) = Release p \<and>
     Reboot p = p \<and>
     state (Reboot (Release p)) = OPENED \<and>
     snd (Submit (Reboot (Release p)) t) \<noteq> Returned (Some ErrPoolClosed) \<and>
     (capacity p = - 1 \<or> running p < capacity p \<longrightarrow>
        snd (Submit (Reboot (Release p)) t) = Returned None) \<and>
     (\<not> (capacity p = - 1 \<or> running p < capacity p) \<longrightarrow>
        snd (Submit (Reboot (Release p)) t) =
          (if Nonblocking (options p) \<or>
              (MaxBlockingTasks (options p) \<noteq> 0 \<and> MaxBlockingTasks (options p) \<le> waiting p)
           then Returned (Some ErrPoolOverload) else Blocked))"
proof
  assume op: "state p = OPENED"
  let ?c = "Release p" and ?r = "Reboot (Release p)"
  have c: "state ?c = CLOSED" using op by (simp add: Release_open)
  have r: "state ?r = OPENED" "items (workers ?r) = []" "capacity ?r = capacity p"
    "running ?r = running p" "options ?r = options p" "waiting ?r = waiting p"
    using op by (simp_all add: Release_open Reboot_closed)
  have 1: "Submit ?c t = (?c, Returned (Some ErrPoolClosed))"
    using c by (simp add: Submit_def IsClosed_def)
  have 2: "Release ?c = ?c" using c by (rule Release_closed)
  have 3: "Reboot p = p" using op by (simp add: Reboot_def)
  have s: "Submit ?r t = hand_over (retrieveWorker ?r t) t"
    using r(1) by (simp add: Submit_def IsClosed_def)
  have 5: "snd (Submit ?r t) \<noteq> Returned (Some ErrPoolClosed)"
    unfolding s by (simp add: hand_over_def split: prod.splits acquired.splits)
  have 6: "snd (Submit ?r t) = Returned None" if "capacity p = - 1 \<or> running p < capacity p"
  proof -
    from that r obtain q w where "retrieveWorker ?r t = (q, Worker w)"
      using retrieveWorker_empty_spawns [of ?r t] by auto
    then show ?thesis unfolding s by (simp add: hand_over_def)
  qed
  have 7: "snd (Submit ?r t) =
          (if Nonblocking (options p) \<or>
              (MaxBlockingTasks (options p) \<noteq> 0 \<and> MaxBlockingTasks (options p) \<le> waiting p)
           then Returned (Some ErrPoolOverload) else Blocked)"
    if "\<not> (capacity p = - 1 \<or> running p < capacity p)"
  proof -
    have "snd (retrieveWorker ?r t) =
     (if Nonblocking (options p) \<or>
         (MaxBlockingTasks (options p) \<noteq> 0 \<and> MaxBlockingTasks (options p) \<le> waiting p)
      then NoWorker else Parked)"
      using retrieveWorker_empty_saturated [of ?r t] that r by simp
    then show ?thesis unfolding s
      by (cases "retrieveWorker ?r t") (simp add: hand_over_def split: if_splits)
  qed
  from 1 2 3 r(1) 5 6 7
  show "Submit (Release p) t = (Release p, Returned (Some ErrPoolClosed)) \<and>
     Release (Release p) = Release p \<and>
     Reboot p = p \<and>
     state (Reboot (Release p)) = OPENED \<and>
     snd (Submit (Reboot (Release p)) t) \<noteq> Returned (Some ErrPoolClosed) \<and>
     (capacity p = - 1 \<or> running p < capacity p \<longrightarrow>
        snd (Submit (Reboot (Release p)) t) = Returned None) \<and>
     (\<not> (capacity p = - 1 \<or> running p < capacity p) \<longrightarrow>
        snd (Submit (Reboot (Release p)) t) =
          (if Nonblocking (options p) \<or>
              (MaxBlockingTasks (options p) \<noteq> 0 \<and> MaxBlockingTasks (options p) \<le> waiting p)
           then Returned (Some ErrPoolOverload) else Blocked))"
    by blast
qed

theorem close_reboot_submit_witness:
  "snd (Submit (Release (samplePool 2 False)) (Some (Func 0 False))) =
     Returned (Some ErrPoolClosed) \<and>
   Release (Release (samplePool 2 False)) = Release (samplePool 2 False) \<and>
   Reboot (samplePool 2 False) = samplePool 2 False \<and>
   snd (Submit (Reboot (Release (samplePool 2 False))) (Some (Func 0 False))) = Returned None \<and>
   snd (Submit (Reboot (Release (exec (samplePool 1 True) [OpSubmit (Some (Func 0 False))])))
          (Some (Func 1 False))) = Returned (Some ErrPoolOverload)"
proof -
  let ?p = "samplePool 2 False"
  let ?s = "exec (samplePool 1 True) [OpSubmit (Some (Func 0 False))]"
  have 1: "state ?p = OPENED" "running ?p < capacity ?p"
    by code_simp+
  have 2: "state ?s = OPENED" "\<not> (capacity ?s = - 1 \<or> running ?s < capacity ?s)"
    "Nonblocking (options ?s)"
    by code_simp+
  from 1 2 close_reboot_submit [of ?p "Some (Func 0 False)"]
    close_reboot_submit [of ?s "Some (Func 1 False)"]
  show ?thesis by simp
qed

text \<open>
  A pool built by \<open>NewPool\<close> holds a cancel function whenever it is open, whatever
  operations it went through: only \<open>ReleaseTimeout\<close> clears it, and closes the pool, and
  \<open>Reboot\<close> sets a new one.
\<close>

lemma same_gate_refl: "same_gate p p"
  by (simp add: same_gate_def)

lemma spawnWorker_gate: "same_gate (fst (spawnWorker p)) p"
  by (simp add: same_gate_def spawnWorker_def workerCache_Get_def run_def addRunning_def Let_def
      split: list.splits)

lemma retry_gate: "same_gate (fst (retry p t)) p"
  by (simp add: same_gate_def retry_def addWaiting_def Let_def)

lemma retrieveWorker_gate: "same_gate (fst (retrieveWorker p t)) p"
  using spawnWorker_gate [of p] retry_gate [of p t]
  by (auto simp: retrieveWorker_def Let_def same_gate_def split: prod.splits option.splits)

lemma retrieveWorker_wake_gate: "same_gate (fst (retrieveWorker_wake p t)) p"
proof -
  let ?p = "addWaiting p (- 1)"
  have "same_gate ?p p" by (simp add: same_gate_def addWaiting_def)
  moreover have "same_gate (fst (retrieveWorker_wake p t)) ?p"
    using spawnWorker_gate [of ?p] retry_gate [of ?p t]
    by (auto simp: retrieveWorker_wake_def Let_def same_gate_def
        split: prod.splits option.splits)
  ultimately show ?thesis by (simp add: same_gate_def)
qed

lemma hand_over_gate: "same_gate (fst (hand_over r t)) (fst r)"
  by (cases r) (simp add: hand_over_def send_def same_gate_def split: acquired.splits)

lemma Submit_gate: "same_gate (fst (Submit p t)) p"
  using hand_over_gate [of "retrieveWorker p t" t] retrieveWorker_gate [of p t]
  by (simp add: Submit_def same_gate_def)

lemma resume_gate: "same_gate (fst (resume p i)) p"
proof (cases "i < length (notified (cond p))")
  case True
  let ?q = "p\<lparr>cond := (cond p)\<lparr>notified := take i (notified (cond p)) @
                 drop (Suc i) (notified (cond p))\<rparr>\<rparr>"
  from hand_over_gate [of "retrieveWorker_wake ?q (notified (cond p) ! i)"]
    retrieveWorker_wake_gate [of ?q] True
  show ?thesis by (simp add: resume_def Let_def Submit_wake_def same_gate_def)
next
  case False
  then show ?thesis by (simp add: resume_def Let_def same_gate_def)
qed

lemma Tune_gate: "same_gate (Tune p sz) p"
  by (simp add: Tune_def Let_def same_gate_def)

lemma worker_exit_gate: "same_gate (worker_exit p w r) p"
  by (simp add: worker_exit_def addRunning_def Let_def same_gate_def split: option.splits)

lemma revertWorker_gate: "same_gate (fst (revertWorker p w now)) p"
  by (simp add: revertWorker_def revertWorker_locked_def Let_def same_gate_def
      split: option.splits)

lemma worker_recv_gate: "same_gate (worker_recv p w) p"
proof -
  have "same_gate (worker_exit (p\<lparr>heap := h\<rparr>) w None) p" for h
    using worker_exit_gate [of "p\<lparr>heap := h\<rparr>" w None] by (simp add: same_gate_def)
  then show ?thesis
    by (auto simp: worker_recv_def Let_def same_gate_def split: list.splits option.splits)
qed

lemma worker_finish_gate: "same_gate (worker_finish p w now) p"
proof (cases "w \<in> set (live p)")
  case False
  then show ?thesis by (simp add: worker_finish_def same_gate_def)
next
  case True
  show ?thesis
  proof (cases "executing p w")
    case None
    with True show ?thesis by (simp add: worker_finish_def same_gate_def)
  next
    case (Some g)
    let ?p1 = "p\<lparr>executed := executed p @ [fid g], executing := (executing p)(w := None)\<rparr>"
    obtain p2 ok where r: "revertWorker ?p1 w now = (p2, ok)"
      by (cases "revertWorker ?p1 w now")
    have g1: "same_gate ?p1 p" by (simp add: same_gate_def)
    have g2: "same_gate p2 p"
      using revertWorker_gate [of ?p1 w now] r by (simp add: same_gate_def)
    have "worker_finish p w now =
          (if panics g then worker_exit ?p1 w (Some (fid g))
           else if ok then p2 else worker_exit p2 w None)"
      using True Some r by (simp add: worker_finish_def Let_def)
    then show ?thesis
      using g1 g2 worker_exit_gate [of ?p1 w "Some (fid g)"] worker_exit_gate [of p2 w None]
      by (simp add: same_gate_def)
  qed
qed

lemma purge_tick_gate: "same_gate (purge_tick p ctx now) p"
  by (simp add: purge_tick_def purge_stop_def Let_def fold_send same_gate_def
      split: prod.splits)

lemma purge_done_gate: "same_gate (purge_done p ctx) p"
  by (simp add: purge_done_def purge_stop_def same_gate_def)

lemma cancellable_gate: "same_gate q p \<Longrightarrow> cancellable p \<Longrightarrow> cancellable q"
  by (simp add: same_gate_def cancellable_def)

lemma Release_state: "state (Release p) = CLOSED \<or> Release p = p"
  by (simp add: Release_def reset_eq Let_def)

lemma cancellable_Release: "cancellable p \<Longrightarrow> cancellable (Release p)"
  using Release_state [of p] by (auto simp: cancellable_def)

lemma cancellable_Release_any: "state p = OPENED \<Longrightarrow> cancellable (Release p)"
  by (simp add: cancellable_def Release_def reset_eq Let_def)

lemma cancellable_Reboot: "cancellable p \<Longrightarrow> cancellable (Reboot p)"
  by (auto simp: cancellable_def Reboot_def Let_def)

lemma cancellable_ReleaseTimeout:
  "cancellable p \<Longrightarrow> cancellable (fst (ReleaseTimeout p timeout now d0 []))"
  by (cases "state p")
     (auto simp: ReleaseTimeout_fst IsClosed_def cancellable_Release_any split: option.splits)

lemma cancellable_step: "cancellable p \<Longrightarrow> cancellable (step p x)"
  by (cases x)
    (simp_all add: cancellable_gate [OF Submit_gate] cancellable_gate [OF resume_gate]
      cancellable_gate [OF Tune_gate] cancellable_gate [OF worker_recv_gate]
      cancellable_gate [OF worker_finish_gate] cancellable_gate [OF purge_tick_gate]
      cancellable_gate [OF purge_done_gate] cancellable_Release cancellable_Reboot
      cancellable_ReleaseTimeout)

lemma cancellable_exec: "cancellable p \<Longrightarrow> cancellable (exec p ops)"
  unfolding exec_def by (induction ops arbitrary: p) (simp_all add: cancellable_step)

lemma cancellable_NewPool: "NewPool sz opts = Inr p \<Longrightarrow> cancellable p"
  by (auto simp: NewPool_def Let_def emptyPool_def cancellable_def split: if_splits)

text \<open>The two ways out of \<open>ReleaseTimeout\<close> at the first test of its loop.\<close>

lemma ReleaseTimeout_cases:
  "(state p = OPENED \<and> stopHeartbeat p = Some ctx \<and> timeout \<le> 0 \<longrightarrow>
      ReleaseTimeout p timeout now d0 env =
        (Release (p\<lparr>cancelled := ctx # cancelled p, stopHeartbeat := None\<rparr>),
         Returned (Some ErrTimeout))) \<and>
   (state p = OPENED \<and> stopHeartbeat p = Some ctx \<and> int d0 < timeout \<and> running p = 0 \<and>
    (DisablePurge (options p) \<or> heartbeatDone p = 1) \<longrightarrow>
      ReleaseTimeout p timeout now d0 env =
        (Release (p\<lparr>cancelled := ctx # cancelled p, stopHeartbeat := None\<rparr>), Returned None))"
proof -
  let ?q = "Release (p\<lparr>cancelled := ctx # cancelled p, stopHeartbeat := None\<rparr>)"
  have 1: "poll (now + timeout) (now + int d0) env ?q = (?q, Returned (Some ErrTimeout))"
    if "timeout \<le> 0"
    using that by (cases env) auto
  have 2: "poll (now + timeout) (now + int d0) env ?q = (?q, Returned None)"
    if "state p = OPENED" "int d0 < timeout" "running p = 0"
       "DisablePurge (options p) \<or> heartbeatDone p = 1"
  proof -
    have "running ?q = 0" "options ?q = options p" "heartbeatDone ?q = heartbeatDone p"
      using that by (simp_all add: Release_open)
    then show ?thesis using that by (cases env) (auto simp: Running_def)
  qed
  show ?thesis using 1 2 by (auto simp: ReleaseTimeout_def IsClosed_def Let_def)
qed

text \<open>
  Claim C9. On an open pool, reached from \<open>NewPool\<close> by any operations,
  \<open>ReleaseTimeout\<close> with a timeout \<open>\<le> 0\<close> closes the pool and returns \<open>ErrTimeout\<close>, whatever
  the running count and \<open>heartbeatDone\<close> are: the clock does not run backwards, so the
  loop's test fails at once and the test for a drained pool is never made. With a timeout
  that has not run out at the loop's first test, the same pool with no running worker
  and a finished (or disabled) scavenger gives \<^verbatim>\<open>nil\<close>.
\<close>

theorem ReleaseTimeout_nonpositive:
  "(NewPool sz opts = Inr p0 \<and> state (exec p0 ops) = OPENED \<and> timeout \<le> 0 \<longrightarrow>
      snd (ReleaseTimeout (exec p0 ops) timeout now d0 env) = Returned (Some ErrTimeout) \<and>
      state (fst (ReleaseTimeout (exec p0 ops) timeout now d0 env)) = CLOSED) \<and>
   (NewPool sz opts = Inr p0 \<and> state (exec p0 ops) = OPENED \<and> int d0 < timeout \<and>
    running (exec p0 ops) = 0 \<and>
    (DisablePurge (options (exec p0 ops)) \<or> heartbeatDone (exec p0 ops) = 1) \<longrightarrow>
      snd (ReleaseTimeout (exec p0 ops) timeout now d0 env) = Returned None)"
proof -
  let ?p = "exec p0 ops"
  have c: "\<exists>ctx. stopHeartbeat ?p = Some ctx" if "NewPool sz opts = Inr p0" "state ?p = OPENED"
    using cancellable_exec [OF cancellable_NewPool [OF that(1)], of ops] that(2)
    by (auto simp: cancellable_def)
  have 1: "snd (ReleaseTimeout ?p timeout now d0 env) = Returned (Some ErrTimeout) \<and>
      state (fst (ReleaseTimeout ?p timeout now d0 env)) = CLOSED"
    if "NewPool sz opts = Inr p0" "state ?p = OPENED" "timeout \<le> 0"
  proof -
    from c that obtain ctx where x: "stopHeartbeat ?p = Some ctx" by blast
    have "state (Release (?p\<lparr>cancelled := ctx # cancelled ?p, stopHeartbeat := None\<rparr>)) = CLOSED"
      using that(2) by (simp add: Release_open)
    with ReleaseTimeout_cases [of ?p ctx timeout now d0 env] x that show ?thesis by simp
  qed
  have 2: "snd (ReleaseTimeout ?p timeout now d0 env) = Returned None"
    if "NewPool sz opts = Inr p0" "state ?p = OPENED" "int d0 < timeout" "running ?p = 0"
      "DisablePurge (options ?p) \<or> heartbeatDone ?p = 1"
  proof -
    from c that obtain ctx where x: "stopHeartbeat ?p = Some ctx" by blast
    with ReleaseTimeout_cases [of ?p ctx timeout now d0 env] that show ?thesis by simp
  qed
  from 1 2 show ?thesis by blast
qed

theorem ReleaseTimeout_nonpositive_witness:
  "running (exec (noPurgePool 3) [OpSubmit (Some (Func 0 True)), OpRecv 0, OpFinish 0 5]) = 0 \<and>
   DisablePurge
     (options (exec (noPurgePool 3) [OpSubmit (Some (Func 0 True)), OpRecv 0, OpFinish 0 5])) \<and>
   snd (ReleaseTimeout
          (exec (noPurgePool 3) [OpSubmit (Some (Func 0 True)), OpRecv 0, OpFinish 0 5])
          0 1000 0 []) = Returned (Some ErrTimeout) \<and>
   snd (ReleaseTimeout
          (exec (noPurgePool 3) [OpSubmit (Some (Func 0 True)), OpRecv 0, OpFinish 0 5])
          (- 5) 1000 2 []) = Returned (Some ErrTimeout) \<and>
   snd (ReleaseTimeout
          (exec (noPurgePool 3) [OpSubmit (Some (Func 0 True)), OpRecv 0, OpFinish 0 5])
          1 1000 0 []) = Returned None"
proof -
  let ?ops = "[OpSubmit (Some (Func 0 True)), OpRecv 0, OpFinish 0 5]"
  let ?p = "exec (noPurgePool 3) ?ops"
  have n: "NewPool 3 (zeroOptions\<lparr>DisablePurge := True\<rparr>) = Inr (noPurgePool 3)"
    by (rule NewPool_noPurgePool) simp_all
  have h: "state ?p = OPENED" "running ?p = 0" "DisablePurge (options ?p)"
    by code_simp+
  from n h
    ReleaseTimeout_nonpositive
      [of 3 "zeroOptions\<lparr>DisablePurge := True\<rparr>" "noPurgePool 3" ?ops 0 1000 0 "[]"]
    ReleaseTimeout_nonpositive
      [of 3 "zeroOptions\<lparr>DisablePurge := True\<rparr>" "noPurgePool 3" ?ops "- 5" 1000 2 "[]"]
    ReleaseTimeout_nonpositive
      [of 3 "zeroOptions\<lparr>DisablePurge := True\<rparr>" "noPurgePool 3" ?ops 1 1000 0 "[]"]
  show ?thesis by simp
qed

section \<open>Properties of submitting and of returning a worker\<close>

text \<open>
  Claim C2. \<open>Submit\<close> returns \<open>ErrPoolClosed\<close> and leaves the pool alone when the pool is
  closed. Otherwise it goes by what \<open>retrieveWorker\<close> yields: no worker, and it returns
  \<open>ErrPoolOverload\<close>; a worker, and it sends the task on that worker's channel, where it
  joins the end, and returns \<^verbatim>\<open>nil\<close>; while the caller is parked, it has not returned.
  A caller that was parked and wakes up goes on in the same way.
\<close>

theorem Submit_outcomes:
  "(state p = CLOSED \<longrightarrow> Submit p t = (p, Returned (Some ErrPoolClosed))) \<and>
   (state p \<noteq> CLOSED \<and> retrieveWorker p t = (q, NoWorker) \<longrightarrow>
      Submit p t = (q, Returned (Some ErrPoolOverload))) \<and>
   (state p \<noteq> CLOSED \<and> retrieveWorker p t = (q, Worker w) \<longrightarrow>
      Submit p t = (send q w t, Returned None) \<and>
      task (heap (send q w t) w) = task (heap q w) @ [t]) \<and>
   (state p \<noteq> CLOSED \<and> retrieveWorker p t = (q, Parked) \<longrightarrow> Submit p t = (q, Blocked)) \<and>
   (retrieveWorker_wake p t = (q, NoWorker) \<longrightarrow>
      Submit_wake p t = (q, Returned (Some ErrPoolOverload))) \<and>
   (retrieveWorker_wake p t = (q, Worker w) \<longrightarrow>
      Submit_wake p t = (send q w t, Returned None)) \<and>
   (retrieveWorker_wake p t = (q, Parked) \<longrightarrow> Submit_wake p t = (q, Blocked))"
  by (simp add: Submit_def Submit_wake_def hand_over_def IsClosed_def send_def)

theorem Submit_outcomes_witness:
  "snd (Submit (Release (samplePool 1 True)) (Some (Func 0 False))) =
     Returned (Some ErrPoolClosed) \<and>
   snd (Submit (samplePool 1 True) (Some (Func 0 False))) = Returned None \<and>
   task (heap (fst (Submit (samplePool 1 True) (Some (Func 0 False)))) 0) =
     [Some (Func 0 False)] \<and>
   snd (Submit (exec (samplePool 1 True) [OpSubmit (Some (Func 0 False))])
          (Some (Func 1 False))) = Returned (Some ErrPoolOverload) \<and>
   snd (Submit (exec (samplePool 1 False) [OpSubmit (Some (Func 0 False))])
          (Some (Func 1 False))) = Blocked \<and>
   snd (Submit_wake
          (exec (samplePool 1 False)
             [OpSubmit (Some (Func 0 False)), OpSubmit (Some (Func 1 False)), OpRecv 0,
              OpFinish 0 5])
          (Some (Func 1 False))) = Returned None"
proof -
  let ?a = "Some (Func 0 False)" and ?b = "Some (Func 1 False)"
  let ?c = "Release (samplePool 1 True)"
  let ?p = "samplePool 1 True"
  let ?s = "exec (samplePool 1 True) [OpSubmit (Some (Func 0 False))]"
  let ?k = "exec (samplePool 1 False) [OpSubmit (Some (Func 0 False))]"
  let ?v = "exec (samplePool 1 False)
             [OpSubmit (Some (Func 0 False)), OpSubmit (Some (Func 1 False)), OpRecv 0,
              OpFinish 0 5]"
  have 1: "state ?c = CLOSED" by code_simp
  have 2: "state ?p \<noteq> CLOSED"
    "retrieveWorker ?p ?a = (fst (retrieveWorker ?p ?a), Worker 0)"
    "task (heap (fst (retrieveWorker ?p ?a)) 0) = []"
    by (code_simp, rule pair_snd, code_simp, code_simp)
  have 3: "state ?s \<noteq> CLOSED"
    "retrieveWorker ?s ?b = (fst (retrieveWorker ?s ?b), NoWorker)"
    by (code_simp, rule pair_snd, code_simp)
  have 4: "state ?k \<noteq> CLOSED"
    "retrieveWorker ?k ?b = (fst (retrieveWorker ?k ?b), Parked)"
    by (code_simp, rule pair_snd, code_simp)
  have 5: "retrieveWorker_wake ?v ?b = (fst (retrieveWorker_wake ?v ?b), Worker 0)"
    by (rule pair_snd) code_simp
  from 1 2 3 4 5
    Submit_outcomes [of ?c ?a] Submit_outcomes [of ?p ?a "fst (retrieveWorker ?p ?a)" 0]
    Submit_outcomes [of ?s ?b "fst (retrieveWorker ?s ?b)"]
    Submit_outcomes [of ?k ?b "fst (retrieveWorker ?k ?b)"]
    Submit_outcomes [of ?v ?b "fst (retrieveWorker_wake ?v ?b)" 0]
  show ?thesis by simp
qed

text \<open>
  Claim C3, as stated, fails for a capacity of 0, which is not negative: a pool of
  capacity 1 with one busy worker is tuned to \<open>2 ^ 32\<close>, which leaves capacity 0; the
  running count 1 is above it, yet \<open>revertWorker\<close> succeeds and the worker is back in the
  queue.
\<close>

theorem revertWorker_zero_capacity:
  "map_sum id
     (\<lambda>p0. let p = exec p0 [OpSubmit (Some (Func 0 False)), OpTune 4294967296, OpRecv 0]
           in (capacity p, running p, state p, snd (revertWorker p 0 7),
               items (workers (step p (OpFinish 0 7)))))
     (NewPool 1 zeroOptions) = Inr (0, 1, OPENED, True, [0])"
  by code_simp

text \<open>
  Claim C3, amended: the test for too many workers is \<^verbatim>\<open>capacity > 0\<close>, a positive
  capacity. \<open>revertWorker\<close> fails, and first wakes every parked submitter, when the
  running count is above a positive capacity or the pool is closed. Otherwise it stamps
  the worker and goes on under the lock with the pool as it is then (\<open>q\<close>): it fails if
  that pool is closed, it fails if the queue rejects the insert, and else it puts the
  worker into the queue, wakes the submitter parked longest (if there is one) and
  succeeds. \<open>Broadcast\<close> leaves nobody parked; \<open>Signal\<close> moves at most one.
\<close>

theorem revertWorker_cases:
  "((0 < capacity p \<and> capacity p < running p) \<or> state p = CLOSED \<longrightarrow>
      revertWorker p w now = (p\<lparr>cond := Broadcast (cond p)\<rparr>, False)) \<and>
   (\<not> ((0 < capacity p \<and> capacity p < running p) \<or> state p = CLOSED) \<longrightarrow>
      revertWorker p w now = revertWorker_locked (stamp p w now) w \<and>
      recycleTime (heap (stamp p w now) w) = now) \<and>
   (state q = CLOSED \<longrightarrow> revertWorker_locked q w = (q, False)) \<and>
   (state q \<noteq> CLOSED \<and> insert_worker (workers q) w = None \<longrightarrow>
      revertWorker_locked q w = (q, False)) \<and>
   (state q \<noteq> CLOSED \<and> insert_worker (workers q) w = Some a \<longrightarrow>
      revertWorker_locked q w = (q\<lparr>workers := a, cond := Signal (cond q)\<rparr>, True)) \<and>
   parked (Broadcast c) = [] \<and> notified (Broadcast c) = notified c @ parked c \<and>
   parked (Signal c) = drop 1 (parked c) \<and> notified (Signal c) = notified c @ take 1 (parked c)"
  by (auto simp: revertWorker_def revertWorker_locked_def stamp_def Cap_def Running_def
      IsClosed_def Broadcast_def Signal_def split: list.splits)

theorem revertWorker_cases_witness:
  "snd (revertWorker
          (exec (samplePool 2 False)
             [OpSubmit (Some (Func 0 False)), OpSubmit (Some (Func 1 False)), OpTune 1]) 0 9)
     = False \<and>
   snd (revertWorker (Release (samplePool 1 False)) 0 9) = False \<and>
   snd (revertWorker_locked (Release (samplePool 1 False)) 0) = False \<and>
   snd (revertWorker_locked
          (samplePool 1 False\<lparr>workers := \<lparr>kind = loopQueueType, bound = 1, items = [3]\<rparr>\<rparr>) 0)
     = False \<and>
   snd (revertWorker
          (exec (samplePool 1 False) [OpSubmit (Some (Func 0 False)), OpRecv 0]) 0 9) = True \<and>
   parked (Broadcast \<lparr>parked = [None, None], notified = []\<rparr>) = [] \<and>
   notified (Signal \<lparr>parked = [None, None], notified = []\<rparr>) = [None]"
proof -
  let ?o = "exec (samplePool 2 False)
             [OpSubmit (Some (Func 0 False)), OpSubmit (Some (Func 1 False)), OpTune 1]"
  let ?c = "Release (samplePool 1 False)"
  let ?f = "samplePool 1 False\<lparr>workers := \<lparr>kind = loopQueueType, bound = 1, items = [3]\<rparr>\<rparr>"
  let ?r = "exec (samplePool 1 False) [OpSubmit (Some (Func 0 False)), OpRecv 0]"
  let ?s = "stamp ?r 0 9"
  let ?k = "\<lparr>parked = [None, None], notified = []\<rparr> :: cond"
  have 1: "0 < capacity ?o \<and> capacity ?o < running ?o" by code_simp
  have 2: "state ?c = CLOSED" by code_simp
  have 3: "state ?f \<noteq> CLOSED \<and> insert_worker (workers ?f) 0 = None" by code_simp
  have 4: "\<not> ((0 < capacity ?r \<and> capacity ?r < running ?r) \<or> state ?r = CLOSED)"
    by code_simp
  have 5: "state ?s \<noteq> CLOSED" by code_simp
  have "insert_worker (workers ?s) 0 \<noteq> None" by code_simp
  then obtain a where 6: "insert_worker (workers ?s) 0 = Some a" by blast
  from 1 2 3 4 5 6
    revertWorker_cases [where p = ?o and w = 0 and now = 9 and q = ?c and c = ?k]
    revertWorker_cases [where p = ?c and w = 0 and now = 9 and q = ?f]
    revertWorker_cases [where p = ?r and w = 0 and now = 9 and q = ?s and a = a]
  show ?thesis by simp
qed

subsection \<open>Workers, goroutines and channels stay consistent\<close>

text \<open>
  Every pool that \<open>NewPool\<close> builds is \<open>consistent\<close>, and every operation keeps it so;
  in particular, the worker that \<open>retrieveWorker\<close> hands out is \<open>ready\<close>.
\<close>

lemma consistent_emptyPool: "items a = [] \<Longrightarrow> consistent (emptyPool c opts a)"
  by (simp add: consistent_def emptyPool_def)

lemma consistent_NewPool: "NewPool sz opts = Inr p \<Longrightarrow> consistent p"
  by (auto simp: NewPool_def Let_def newWorkerArray_def consistent_emptyPool split: if_splits)

lemma stop_all_Nil: "stop_all [] h = h"
  by (simp add: stop_all_def)

lemma stop_all_Cons:
  "stop_all (v # ws) h = stop_all ws (h(v := (h v)\<lparr>task := task (h v) @ [None]\<rparr>))"
  by (simp add: stop_all_def)

lemma stop_all_other: "w \<notin> set ws \<Longrightarrow> stop_all ws h w = h w"
  by (induction ws arbitrary: h) (simp_all add: stop_all_Nil stop_all_Cons)

lemma stop_all_task:
  "distinct ws \<Longrightarrow> w \<in> set ws \<Longrightarrow> task (stop_all ws h w) = task (h w) @ [None]"
proof (induction ws arbitrary: h)
  case Nil
  then show ?case by simp
next
  case (Cons v ws)
  show ?case
  proof (cases "w = v")
    case True
    with Cons.prems have "w \<notin> set ws" by simp
    then show ?thesis using True by (simp add: stop_all_Cons stop_all_other)
  next
    case False
    with Cons show ?thesis by (simp add: stop_all_Cons)
  qed
qed

lemma stop_all_task_if:
  "distinct ws \<Longrightarrow>
   task (stop_all ws h w) = (if w \<in> set ws then task (h w) @ [None] else task (h w))"
  by (simp add: stop_all_other stop_all_task)

lemma consistent_cond: "consistent (p\<lparr>cond := c\<rparr>) = consistent p"
  by (simp add: consistent_def)

lemma consistent_addWaiting: "consistent (addWaiting p d) = consistent p"
  by (simp add: consistent_def addWaiting_def)

lemma consistent_retry: "consistent p \<Longrightarrow> consistent (fst (retry p t))"
  by (simp add: retry_def Let_def consistent_cond consistent_addWaiting)

lemma consistent_Tune: "consistent p \<Longrightarrow> consistent (Tune p sz)"
  by (simp add: Tune_def Let_def consistent_def)

lemma consistent_Reboot: "consistent p \<Longrightarrow> consistent (Reboot p)"
  by (simp add: Reboot_def Let_def consistent_def)

lemma consistent_state: "consistent (p\<lparr>state := s\<rparr>) = consistent p"
  by (simp add: consistent_def)

lemma consistent_reset: "consistent p \<Longrightarrow> consistent (reset p)"
  unfolding reset_eq by (auto simp: consistent_def stop_all_task_if)

lemma consistent_Release: "consistent p \<Longrightarrow> consistent (Release p)"
  by (simp add: Release_def Let_def consistent_reset consistent_state consistent_cond)

lemma consistent_send:
  assumes "consistent p" "w \<in> set (live p)" "executing p w = None" "task (heap p w) = []"
    "w \<notin> set (items (workers p))"
  shows "consistent (send p w t)"
proof -
  have "w \<notin> set (workerCache p)" using assms(1,2) by (auto simp: consistent_def)
  then show ?thesis using assms by (auto simp: consistent_def send_def)
qed

lemma consistent_detach:
  assumes "consistent p" "detach (workers p) = (Some w, a)"
  shows "consistent (p\<lparr>workers := a\<rparr>) \<and> ready (p\<lparr>workers := a\<rparr>) w"
proof (cases "kind (workers p)")
  case stackType
  with assms(2) have ne: "items (workers p) \<noteq> []" and w: "w = last (items (workers p))"
    and a: "items a = butlast (items (workers p))"
    by (auto simp: detach_def split: if_splits)
  from ne have sp: "items (workers p) = items a @ [w]" using w a by simp
  with assms(1) show ?thesis
    by (auto simp: consistent_def ready_def)
next
  case loopQueueType
  with assms(2) have sp: "items (workers p) = w # items a"
    by (auto simp: detach_def split: list.splits)
  with assms(1) show ?thesis
    by (auto simp: consistent_def ready_def)
qed

lemma consistent_spawnWorker:
  assumes "consistent p" "spawnWorker p = (q, w)"
  shows "consistent q \<and> ready q w"
proof (cases "workerCache p")
  case Nil
  with assms(2) have q: "q = run (p\<lparr>fresh := Suc (fresh p),
      heap := (heap p)(fresh p := \<lparr>task = [], recycleTime = 0\<rparr>)\<rparr>) (fresh p)"
    and w: "w = fresh p"
    by (auto simp: spawnWorker_def workerCache_Get_def)
  have f: "fresh p \<notin> set (live p)" "fresh p \<notin> set (items (workers p))"
    "fresh p \<notin> set (workerCache p)"
    using assms(1) by (auto simp: consistent_def)
  show ?thesis unfolding q w using assms(1) f int32_range [of "running p + int32 1"]
    by (auto simp: consistent_def ready_def run_def addRunning_def Let_def less_Suc_eq)
next
  case (Cons v vs)
  with assms(2) have q: "q = run (p\<lparr>workerCache := vs\<rparr>) v" and w: "w = v"
    by (auto simp: spawnWorker_def workerCache_Get_def)
  have f: "v \<notin> set (live p)" "v \<notin> set (items (workers p))" "v \<notin> set vs"
    "v < fresh p" "task (heap p v) = []"
    using assms(1) Cons by (auto simp: consistent_def)
  show ?thesis unfolding q w using assms(1) f Cons int32_range [of "running p + int32 1"]
    by (auto simp: consistent_def ready_def run_def addRunning_def Let_def)
qed


lemma consistent_retrieveWorker:
  assumes "consistent p"
  shows "consistent (fst (retrieveWorker p t)) \<and>
         (\<forall>w. snd (retrieveWorker p t) = Worker w \<longrightarrow> ready (fst (retrieveWorker p t)) w)"
proof -
  obtain r a where d: "detach (workers p) = (r, a)" by (cases "detach (workers p)")
  obtain q v where s: "spawnWorker p = (q, v)" by (cases "spawnWorker p")
  show ?thesis
  proof (cases r)
    case (Some w)
    with d consistent_detach [OF assms, of w a] show ?thesis
      by (simp add: retrieveWorker_def)
  next
    case None
    show ?thesis
    proof (cases "capacity p = - 1 \<or> running p < capacity p")
      case True
      with d None s consistent_spawnWorker [OF assms s] show ?thesis
        by (auto simp: retrieveWorker_def Cap_def Running_def)
    next
      case False
      have "snd (retry p t) \<noteq> Worker w" for w
        by (simp add: retry_def Let_def)
      with False d None consistent_retry [OF assms, of t] assms show ?thesis
        by (auto simp: retrieveWorker_def Cap_def Running_def)
    qed
  qed
qed

lemma consistent_retrieveWorker_wake:
  assumes "consistent p"
  shows "consistent (fst (retrieveWorker_wake p t)) \<and>
         (\<forall>w. snd (retrieveWorker_wake p t) = Worker w \<longrightarrow>
              ready (fst (retrieveWorker_wake p t)) w)"
proof -
  let ?p = "addWaiting p (- 1)"
  have c: "consistent ?p" using assms by (simp add: consistent_addWaiting)
  obtain r a where d: "detach (workers ?p) = (r, a)" by (cases "detach (workers ?p)")
  obtain q v where s: "spawnWorker ?p = (q, v)" by (cases "spawnWorker ?p")
  have nr: "snd (retry ?p t) \<noteq> Worker w" for w
    by (simp add: retry_def Let_def)
  show ?thesis
  proof (cases "IsClosed ?p")
    case True
    then show ?thesis using c by (simp add: retrieveWorker_wake_def Let_def)
  next
    case opn: False
    show ?thesis
    proof (cases "running ?p = 0")
      case True
      with opn s consistent_spawnWorker [OF c s] show ?thesis
        by (simp add: retrieveWorker_wake_def Let_def Running_def)
    next
      case nz: False
      show ?thesis
      proof (cases r)
        case (Some w)
        with d opn nz consistent_detach [OF c, of w a] show ?thesis
          by (simp add: retrieveWorker_wake_def Let_def Running_def)
      next
        case None
        show ?thesis
        proof (cases "running ?p < capacity ?p")
          case True
          with d None opn nz s consistent_spawnWorker [OF c s] show ?thesis
            by (simp add: retrieveWorker_wake_def Let_def Running_def Cap_def)
        next
          case False
          with d None opn nz nr consistent_retry [OF c, of t] show ?thesis
            by (simp add: retrieveWorker_wake_def Let_def Running_def Cap_def)
        qed
      qed
    qed
  qed
qed

lemma consistent_hand_over:
  assumes "consistent (fst r)" "\<forall>w. snd r = Worker w \<longrightarrow> ready (fst r) w"
  shows "consistent (fst (hand_over r t))"
proof (cases r)
  case (Pair q a)
  show ?thesis
  proof (cases a)
    case (Worker w)
    with Pair assms have "ready q w" "consistent q" by simp_all
    then have "consistent (send q w t)"
      by (intro consistent_send) (simp_all add: ready_def)
    with Pair Worker show ?thesis by (simp add: hand_over_def)
  qed (use Pair assms in \<open>simp_all add: hand_over_def\<close>)
qed

lemma consistent_Submit: "consistent p \<Longrightarrow> consistent (fst (Submit p t))"
  using consistent_retrieveWorker [of p t]
  by (simp add: Submit_def consistent_hand_over)

lemma consistent_resume: "consistent p \<Longrightarrow> consistent (fst (resume p i))"
  using consistent_retrieveWorker_wake [of "p\<lparr>cond := c\<rparr>" for c]
  by (simp add: resume_def Let_def Submit_wake_def consistent_hand_over consistent_cond)


lemma consistent_worker_exit:
  assumes "consistent p" "w \<in> set (live p)" "task (heap p w) = []"
    "w \<notin> set (items (workers p))"
  shows "consistent (worker_exit p w r)"
proof -
  have "w \<notin> set (workerCache p)" "w < fresh p"
    using assms(1,2) by (auto simp: consistent_def)
  then show ?thesis
    using assms int32_range [of "running p + int32 (- 1)"]
    by (auto simp: consistent_def worker_exit_def addRunning_def Let_def split: option.splits)
qed

lemma consistent_worker_recv:
  assumes c: "consistent p"
  shows "consistent (worker_recv p w)"
proof (cases "w \<in> set (live p) \<and> executing p w = None")
  case False
  then show ?thesis using c by (auto simp: worker_recv_def)
next
  case True
  show ?thesis
  proof (cases "task (heap p w)")
    case Nil
    then show ?thesis using c by (simp add: worker_recv_def)
  next
    case (Cons f fs)
    let ?p1 = "p\<lparr>heap := (heap p)(w := (heap p w)\<lparr>task := fs\<rparr>)\<rparr>"
    have fs: "fs = []" using c True Cons by (auto simp: consistent_def)
    have ni: "w \<notin> set (items (workers p))" "w \<notin> set (workerCache p)"
      using c True Cons by (auto simp: consistent_def)
    have c1: "consistent ?p1" using c True ni fs
      by (auto simp: consistent_def)
    have "consistent (worker_exit ?p1 w None)"
      using True ni fs by (intro consistent_worker_exit c1) simp_all
    moreover have "consistent (?p1\<lparr>executing := (executing ?p1)(w := Some g)\<rparr>)" for g
      using c1 fs ni c by (auto simp: consistent_def)
    ultimately show ?thesis using True Cons
      by (simp add: worker_recv_def Let_def split: option.splits)
  qed
qed

lemma consistent_revertWorker:
  assumes "consistent p" "ready p w"
  shows "consistent (fst (revertWorker p w now)) \<and>
         live (fst (revertWorker p w now)) = live p \<and>
         task (heap (fst (revertWorker p w now)) w) = [] \<and>
         (\<not> snd (revertWorker p w now) \<longrightarrow>
            w \<notin> set (items (workers (fst (revertWorker p w now)))))"
proof -
  let ?s = "p\<lparr>heap := (heap p)(w := (heap p w)\<lparr>recycleTime := now\<rparr>)\<rparr>"
  have nc: "w \<notin> set (workerCache p)" using assms by (auto simp: consistent_def ready_def)
  have cs: "consistent ?s" using assms nc by (auto simp: consistent_def ready_def)
  have rs: "ready ?s w" using assms by (simp add: ready_def)
  have l: "consistent (fst (revertWorker_locked ?s w)) \<and>
         live (fst (revertWorker_locked ?s w)) = live p \<and>
         task (heap (fst (revertWorker_locked ?s w)) w) = [] \<and>
         (\<not> snd (revertWorker_locked ?s w) \<longrightarrow>
            w \<notin> set (items (workers (fst (revertWorker_locked ?s w)))))"
    using cs rs
    by (auto simp: revertWorker_locked_def insert_worker_def consistent_def ready_def
        split: if_splits)
  show ?thesis
  proof (cases "(0 < Cap p \<and> Cap p < Running p) \<or> IsClosed p")
    case True
    then have "revertWorker p w now = (p\<lparr>cond := Broadcast (cond p)\<rparr>, False)"
      by (auto simp: revertWorker_def)
    then show ?thesis using assms by (simp add: consistent_cond ready_def)
  next
    case False
    then have "revertWorker p w now = revertWorker_locked ?s w"
      by (auto simp: revertWorker_def)
    with l show ?thesis by simp
  qed
qed

lemma consistent_worker_finish:
  assumes c: "consistent p"
  shows "consistent (worker_finish p w now)"
proof (cases "w \<in> set (live p)")
  case False
  then show ?thesis using c by (simp add: worker_finish_def)
next
  case True
  show ?thesis
  proof (cases "executing p w")
    case None
    then show ?thesis using c by (simp add: worker_finish_def)
  next
    case (Some g)
    let ?p1 = "p\<lparr>executed := executed p @ [fid g], executing := (executing p)(w := None)\<rparr>"
    have e: "task (heap p w) = []" "w \<notin> set (items (workers p))"
      using c True Some by (auto simp: consistent_def)
    have c1: "consistent ?p1" using c by (auto simp: consistent_def)
    have r1: "ready ?p1 w" using True e by (simp add: ready_def)
    obtain p2 ok where r: "revertWorker ?p1 w now = (p2, ok)"
      by (cases "revertWorker ?p1 w now")
    from consistent_revertWorker [OF c1 r1, of now] r
    have c2: "consistent p2" "live p2 = live p" "task (heap p2 w) = []"
      "\<not> ok \<Longrightarrow> w \<notin> set (items (workers p2))"
      by simp_all
    have x1: "consistent (worker_exit ?p1 w (Some (fid g)))"
      using True e by (intro consistent_worker_exit c1) simp_all
    have x2: "consistent (worker_exit p2 w None)" if "\<not> ok"
      using True c2 that by (intro consistent_worker_exit) simp_all
    have "worker_finish p w now =
          (if panics g then worker_exit ?p1 w (Some (fid g))
           else if ok then p2 else worker_exit p2 w None)"
      using True Some r by (simp add: worker_finish_def Let_def)
    then show ?thesis using x1 x2 c2(1) by simp
  qed
qed

lemma consistent_purge_stop: "consistent (purge_stop p ctx) = consistent p"
  by (simp add: purge_stop_def consistent_def)

lemma consistent_purge_tick:
  assumes c: "consistent p"
  shows "consistent (purge_tick p ctx now)"
proof -
  obtain ex a where r: "retrieveExpiry p (ExpiryDuration (options p)) now = (ex, a)"
    by (cases "retrieveExpiry p (ExpiryDuration (options p)) now")
  let ?p2 = "p\<lparr>workers := a, heap := stop_all ex (heap p)\<rparr>"
  have ex: "distinct ex" "set ex \<subseteq> set (items (workers p))"
    "set (items a) \<subseteq> set (items (workers p))" "distinct (items a)"
    "set ex \<inter> set (items a) = {}"
    using r c by (auto simp: retrieveExpiry_def consistent_def)
  have c2: "consistent ?p2"
    using c ex by (auto simp: consistent_def stop_all_task_if)
  have "fold (\<lambda>w q. send q w None) ex (p\<lparr>workers := a\<rparr>) = ?p2"
    by (simp add: fold_send)
  then show ?thesis using c c2 r
    by (simp add: purge_tick_def Let_def consistent_purge_stop consistent_cond)
qed

lemma consistent_purge_done: "consistent p \<Longrightarrow> consistent (purge_done p ctx)"
  by (simp add: purge_done_def consistent_purge_stop)

lemma consistent_ReleaseTimeout:
  "consistent p \<Longrightarrow> consistent (fst (ReleaseTimeout p timeout now d0 []))"
proof -
  assume c: "consistent p"
  have "consistent (p\<lparr>cancelled := x, stopHeartbeat := y\<rparr>)" for x y
    using c by (simp add: consistent_def)
  then show ?thesis using c
    by (simp add: ReleaseTimeout_fst consistent_Release split: option.splits)
qed

lemma consistent_step: "consistent p \<Longrightarrow> consistent (step p x)"
  by (cases x)
    (simp_all add: consistent_Submit consistent_resume consistent_Tune consistent_Release
      consistent_Reboot consistent_worker_recv consistent_worker_finish
      consistent_ReleaseTimeout consistent_purge_tick consistent_purge_done)

lemma consistent_exec: "consistent p \<Longrightarrow> consistent (exec p ops)"
  unfolding exec_def by (induction ops arbitrary: p) (simp_all add: consistent_step)

text \<open>
  Claim C8. Take an open pool, reached from \<open>NewPool\<close> by any operations, that supplies
  a worker \<open>w\<close> when a \<^verbatim>\<open>nil\<close> task is submitted. Then \<open>Submit\<close> hands the value to
  \<open>w\<close> and returns \<^verbatim>\<open>nil\<close> (success); and when \<open>w\<close>, which was alive, receives the
  value, it runs no task body, its goroutine ends, and the running count goes down by
  one (in 32-bit arithmetic, so by one exactly unless it was the least \<^verbatim>\<open>int32\<close>).
\<close>

theorem Submit_nil_stops_worker:
  "NewPool sz opts = Inr p0 \<and> state (exec p0 ops) \<noteq> CLOSED \<and>
   retrieveWorker (exec p0 ops) None = (q, Worker w) \<longrightarrow>
     Submit (exec p0 ops) None = (send q w None, Returned None) \<and>
     w \<in> set (live q) \<and>
     executed (worker_recv (send q w None) w) = executed (exec p0 ops) \<and>
     live (worker_recv (send q w None) w) = remove1 w (live q) \<and>
     w \<notin> set (live (worker_recv (send q w None) w)) \<and>
     running (worker_recv (send q w None) w) = int32 (running q - 1) \<and>
     (running q \<noteq> - 2147483648 \<longrightarrow>
        running (worker_recv (send q w None) w) = running q - 1)"
proof
  let ?p = "exec p0 ops"
  assume a: "NewPool sz opts = Inr p0 \<and> state ?p \<noteq> CLOSED \<and>
   retrieveWorker ?p None = (q, Worker w)"
  then have "consistent p0" by (intro consistent_NewPool [of sz opts]) simp
  then have c: "consistent ?p" by (rule consistent_exec)
  from consistent_retrieveWorker [OF c, of None] a
  have cq: "consistent q" and rq: "ready q w" by simp_all
  from rq have h: "task (heap q w) = []" "w \<in> set (live q)" "executing q w = None"
    by (simp_all add: ready_def)
  from cq have d: "distinct (live q)" and rg: "- 2147483648 \<le> running q" "running q < 2147483648"
    by (simp_all add: consistent_def)
  from a have s: "Submit ?p None = (send q w None, Returned None)"
    by (simp add: Submit_def IsClosed_def hand_over_def)
  have e: "executed q = executed ?p"
    using a by (auto simp: retrieveWorker_def retry_def Let_def spawnWorker_def workerCache_Get_def
        run_def addRunning_def addWaiting_def
        split: prod.splits option.splits if_splits list.splits)
  let ?r = "worker_recv (send q w None) w"
  have r: "?r = worker_exit ((send q w None)\<lparr>heap := (heap (send q w None))
                   (w := (heap (send q w None) w)\<lparr>task := []\<rparr>)\<rparr>) w None"
    using h by (simp add: worker_recv_def send_def Let_def)
  have 1: "executed ?r = executed ?p" unfolding r using e
    by (simp add: worker_exit_def addRunning_def send_def Let_def)
  have 2: "live ?r = remove1 w (live q)" unfolding r
    by (simp add: worker_exit_def addRunning_def send_def Let_def)
  have 5: "w \<notin> set (live ?r)" unfolding 2 using d by simp
  have 3: "running ?r = int32 (running q - 1)" unfolding r
    by (simp add: worker_exit_def addRunning_def send_def Let_def int32_def)
  have 4: "running ?r = running q - 1" if "running q \<noteq> - 2147483648"
    unfolding 3 using that rg by (intro int32_id) auto
  from s h(2) 1 2 5 3 4 show "Submit ?p None = (send q w None, Returned None) \<and>
     w \<in> set (live q) \<and>
     executed (worker_recv (send q w None) w) = executed ?p \<and>
     live (worker_recv (send q w None) w) = remove1 w (live q) \<and>
     w \<notin> set (live (worker_recv (send q w None) w)) \<and>
     running (worker_recv (send q w None) w) = int32 (running q - 1) \<and>
     (running q \<noteq> - 2147483648 \<longrightarrow>
        running (worker_recv (send q w None) w) = running q - 1)"
    by blast
qed

theorem Submit_nil_stops_worker_witness:
  "snd (Submit (exec (samplePool 1 False) [OpSubmit (Some (Func 0 False)), OpRecv 0, OpFinish 0 5])
          None) = Returned None \<and>
   running (fst (Submit (exec (samplePool 1 False)
                   [OpSubmit (Some (Func 0 False)), OpRecv 0, OpFinish 0 5]) None)) = 1 \<and>
   executed (worker_recv (fst (Submit (exec (samplePool 1 False)
                   [OpSubmit (Some (Func 0 False)), OpRecv 0, OpFinish 0 5]) None)) 0) = [0] \<and>
   live (worker_recv (fst (Submit (exec (samplePool 1 False)
                   [OpSubmit (Some (Func 0 False)), OpRecv 0, OpFinish 0 5]) None)) 0) = [] \<and>
   running (worker_recv (fst (Submit (exec (samplePool 1 False)
                   [OpSubmit (Some (Func 0 False)), OpRecv 0, OpFinish 0 5]) None)) 0) = 0"
proof -
  let ?ops = "[OpSubmit (Some (Func 0 False)), OpRecv 0, OpFinish 0 5]"
  let ?p = "exec (samplePool 1 False) ?ops"
  let ?q = "fst (retrieveWorker ?p None)"
  have n: "NewPool 1 (zeroOptions\<lparr>Nonblocking := False\<rparr>) = Inr (samplePool 1 False)"
    by (rule NewPool_samplePool) simp_all
  have rw: "retrieveWorker ?p None = (?q, Worker 0)"
    by (rule pair_snd) code_simp
  have h: "state ?p \<noteq> CLOSED" by code_simp
  have v: "live ?q = [0]" "executed ?p = [0]" "running ?q = 1"
    by code_simp+
  have r: "running (send ?q 0 None) = running ?q"
    by (simp add: send_def)
  from Submit_nil_stops_worker
         [of 1 "zeroOptions\<lparr>Nonblocking := False\<rparr>" "samplePool 1 False" ?ops ?q 0]
    n rw h v r
  show ?thesis by simp
qed

section \<open>The running count and the capacity\<close>



















lemma bounded_cong:
  "capacity q = capacity p \<Longrightarrow> running q = running p \<Longrightarrow> live q = live p \<Longrightarrow>
   bounded q = bounded p"
  by (simp add: bounded_def)















text \<open>A pool built for a size between 1 and \<open>2 ^ 31 - 1\<close> starts out \<open>bounded\<close>.\<close>

lemma NewPool_bounded:
  "NewPool sz opts = Inr p \<Longrightarrow> 0 < sz \<Longrightarrow> sz < 2147483648 \<Longrightarrow> bounded p"
  by (auto simp: NewPool_def Let_def emptyPool_def bounded_def int32_id split: if_splits)




end
